theory Spec2Isabelle
  imports Complex_Main "HOL-Library.Multiset" "HOL-Library.AList"
begin

section \<open>JavaScript values used by the flash-card application\<close>

text \<open>
  The application is the single React component \<^verbatim>\<open>App\<close> of
  \<^verbatim>\<open>flashcard-app/src/App.js\<close>. Its handlers are closures over the
  component state; here each handler is a function from the state (and the
  data of its event) to the next state.

  A call of a JavaScript function either throws, or returns a value. A third
  outcome, \<open>Unmodelled\<close>, marks the inputs this development does not
  describe (they are listed where they arise): nothing is stated about the
  program there.
\<close>

datatype 'a outcome = Throws | Unmodelled | Returns 'a

text \<open>Sequencing of calls that may throw.\<close>

fun obind :: "'a outcome \<Rightarrow> ('a \<Rightarrow> 'b outcome) \<Rightarrow> 'b outcome" where
  "obind Throws f = Throws"
| "obind Unmodelled f = Unmodelled"
| "obind (Returns x) f = f x"

fun omap :: "('a \<Rightarrow> 'b) \<Rightarrow> 'a outcome \<Rightarrow> 'b outcome" where
  "omap f Throws = Throws"
| "omap f Unmodelled = Unmodelled"
| "omap f (Returns x) = Returns (f x)"

text \<open>
  The cursor is a JavaScript number, that is an IEEE 754 double. The program
  only ever produces integers, the two infinities and \<^verbatim>\<open>NaN\<close> for it
  (\<^verbatim>\<open>parseInt\<close>, \<^verbatim>\<open>%\<close>, \<^verbatim>\<open>Math.min\<close>, \<^verbatim>\<open>+\<close> on integers), so a
  number is one of these; \<open>Num i\<close> stands for the double of value \<open>i\<close>, for
  the integers \<open>i\<close> that a double holds. \<^verbatim>\<open>-0\<close> is identified with \<open>0\<close> (the
  program never divides by the cursor and prints both as \<^verbatim>\<open>0\<close>).
\<close>

datatype number = NaN | Num int | Infinity | NegInfinity

definition MAX_SAFE_INTEGER :: int where
  "MAX_SAFE_INTEGER = 2 ^ 53 - 1"

text \<open>
  A double has a significand of 53 bits: every integer up to \<open>2 ^ 53\<close> in
  magnitude is a double, and a larger one is rounded to the nearest integer
  with a significand of 53 bits, to the one with the even significand when
  two are equally near. \<open>bit_length n\<close> is the number of binary digits of
  \<open>n\<close>, and \<open>round53 n\<close> the rounded natural number.
\<close>

fun bit_length :: "nat \<Rightarrow> nat" where
  "bit_length n = (if n = 0 then 0 else Suc (bit_length (n div 2)))"

declare bit_length.simps [simp del]

definition round53 :: "nat \<Rightarrow> nat" where
  "round53 n =
     (if n < 2 ^ 53 then n
      else let e = bit_length n - 53;
               q = n div 2 ^ e;
               r = n mod 2 ^ e;
               h = 2 ^ (e - 1)
           in (if h < r \<or> (r = h \<and> odd q) then q + 1 else q) * 2 ^ e)"

text \<open>
  The number that an integer denotes, as the value of a numeric literal or
  as the exact result of an operation: the integer itself within the safe
  range, the rounded integer beyond it, and an infinity from \<open>2 ^ 1024\<close> on.
\<close>

definition to_number :: "int \<Rightarrow> number" where
  "to_number i =
     (if \<bar>i\<bar> \<le> MAX_SAFE_INTEGER then Num i
      else let m = int (round53 (nat \<bar>i\<bar>))
           in if 2 ^ 1024 \<le> m then (if i < 0 then NegInfinity else Infinity)
              else Num (if i < 0 then - m else m))"

text \<open>
  The operator \<^verbatim>\<open>+\<close> on numbers: the exact sum, rounded. The sum of the
  two infinities is \<^verbatim>\<open>NaN\<close>.
\<close>

fun js_add :: "number \<Rightarrow> number \<Rightarrow> number" where
  "js_add (Num a) (Num b) = to_number (a + b)"
| "js_add NaN _ = NaN"
| "js_add _ NaN = NaN"
| "js_add Infinity NegInfinity = NaN"
| "js_add NegInfinity Infinity = NaN"
| "js_add Infinity _ = Infinity"
| "js_add _ Infinity = Infinity"
| "js_add NegInfinity _ = NegInfinity"
| "js_add _ NegInfinity = NegInfinity"

text \<open>
  The operator \<^verbatim>\<open>%\<close> is the remainder of the truncating division: its
  result has the sign of the dividend, and it is exact. It is \<^verbatim>\<open>NaN\<close> for a
  zero divisor and for an infinite dividend, and the dividend itself for an
  infinite divisor.
\<close>

fun js_rem :: "number \<Rightarrow> number \<Rightarrow> number" where
  "js_rem (Num a) (Num b) = (if b = 0 then NaN else Num (sgn a * (\<bar>a\<bar> mod \<bar>b\<bar>)))"
| "js_rem (Num a) Infinity = Num a"
| "js_rem (Num a) NegInfinity = Num a"
| "js_rem _ _ = NaN"

text \<open>\<^verbatim>\<open>Math.min\<close> of two numbers is \<^verbatim>\<open>NaN\<close> when one of them is.\<close>

fun Math_min :: "number \<Rightarrow> number \<Rightarrow> number" where
  "Math_min (Num a) (Num b) = Num (min a b)"
| "Math_min NaN _ = NaN"
| "Math_min _ NaN = NaN"
| "Math_min NegInfinity _ = NegInfinity"
| "Math_min _ NegInfinity = NegInfinity"
| "Math_min Infinity y = y"
| "Math_min x Infinity = x"

subsection \<open>Strings\<close>

text \<open>
  A string is a list of code units; \<open>char\<close> covers the code units below 256,
  and strings with other code units are not in the model.
  \<^verbatim>\<open>String.prototype.trim\<close> and \<^verbatim>\<open>parseInt\<close> strip white space and line
  terminators, which in this range are TAB, LF, VT, FF, CR, SP and NBSP.
\<close>

definition is_js_space :: "char \<Rightarrow> bool" where
  "is_js_space c \<longleftrightarrow> of_char c \<in> {9, 10, 11, 12, 13, 32, 160 :: nat}"

definition js_trim :: "string \<Rightarrow> string" where
  "js_trim s = rev (dropWhile is_js_space (rev (dropWhile is_js_space s)))"

definition is_digit :: "char \<Rightarrow> bool" where
  "is_digit c \<longleftrightarrow> 48 \<le> (of_char c :: nat) \<and> (of_char c :: nat) \<le> 57"

definition digit_val :: "char \<Rightarrow> nat" where
  "digit_val c = of_char c - 48"

definition digit_char :: "nat \<Rightarrow> char" where
  "digit_char d = char_of (48 + d)"

definition digits_val :: "string \<Rightarrow> nat" where
  "digits_val ds = foldl (\<lambda>acc c. 10 * acc + digit_val c) 0 ds"

fun show_nat :: "nat \<Rightarrow> string" where
  "show_nat n = (if n < 10 then [digit_char n] else show_nat (n div 10) @ [digit_char (n mod 10)])"

declare show_nat.simps [simp del]

definition show_int :: "int \<Rightarrow> string" where
  "show_int i = (if i < 0 then CHR ''-'' # show_nat (nat (- i)) else show_nat (nat i))"

text \<open>
  \<^verbatim>\<open>Number.prototype.toString\<close>. An integer is printed in decimal digits
  when its magnitude is below \<open>10 ^ 21\<close>, as every cursor is that the page
  computes (a remainder by the length of an array, or a safe
  integer read by \<^verbatim>\<open>parseInt\<close>); JavaScript prints a larger one with an
  exponent, which is not described here.
\<close>

fun toString :: "number \<Rightarrow> string" where
  "toString NaN = ''NaN''"
| "toString (Num i) = show_int i"
| "toString Infinity = ''Infinity''"
| "toString NegInfinity = ''-Infinity''"

text \<open>
  \<^verbatim>\<open>parseInt(s, 10)\<close>: leading white space is skipped, one sign is read, then
  the longest run of decimal digits; with no digit the result is \<^verbatim>\<open>NaN\<close>.
  Whatever follows the digits is ignored. A value beyond the safe integers
  would be rounded by the double and is left out of the model.
\<close>

definition parseInt10 :: "string \<Rightarrow> number outcome" where
  "parseInt10 s =
     (let t = dropWhile is_js_space s;
          neg = (t \<noteq> [] \<and> hd t = CHR ''-'');
          u = (if t \<noteq> [] \<and> (hd t = CHR ''-'' \<or> hd t = CHR ''+'') then tl t else t);
          ds = takeWhile is_digit u
      in if ds = [] then Returns NaN
         else if int (digits_val ds) > MAX_SAFE_INTEGER then Unmodelled
         else Returns (Num (if neg then - int (digits_val ds) else int (digits_val ds))))"

subsection \<open>JSON values\<close>

text \<open>
  The deck is an array of whatever \<^verbatim>\<open>JSON.parse\<close> returned or the program
  built: the cards are JSON values. An object is the list of its own
  properties in creation order; numbers are the safe integers.
\<close>

datatype json =
    JNull
  | JBool bool
  | JNum int
  | JStr string
  | JArr "json list"
  | JObj "(string \<times> json) list"

text \<open>
  The values that the model stands for: a number is a safe integer, the
  property names of an object are distinct, and none of them is made of
  digits only (JavaScript keeps integer keys in numeric order, before the
  others; such objects are left out, and so are the numbers that are not
  safe integers: fractions, large numbers and the \<^verbatim>\<open>Infinity\<close> that
  \<^verbatim>\<open>JSON.parse\<close> returns for a text such as \<^verbatim>\<open>1e400\<close>).
\<close>

definition index_like :: "string \<Rightarrow> bool" where
  "index_like k \<longleftrightarrow> k \<noteq> [] \<and> list_all is_digit k"

fun wf_json :: "json \<Rightarrow> bool" where
  "wf_json JNull = True"
| "wf_json (JBool b) = True"
| "wf_json (JNum n) = (\<bar>n\<bar> \<le> MAX_SAFE_INTEGER)"
| "wf_json (JStr s) = True"
| "wf_json (JArr xs) = list_all wf_json xs"
| "wf_json (JObj kvs) =
     (distinct (map fst kvs) \<and> list_all (\<lambda>(k, v). \<not> index_like k \<and> wf_json v) kvs)"

text \<open>
  \<^verbatim>\<open>ToBoolean\<close>, and the property read \<^verbatim>\<open>card.front\<close>: reading a property
  of \<^verbatim>\<open>null\<close> throws a TypeError; a boolean, a number, a string and an
  array have no property \<^verbatim>\<open>front\<close> or \<^verbatim>\<open>back\<close> (the read gives
  \<^verbatim>\<open>undefined\<close>, here \<open>None\<close>), and neither has an object that lacks it as
  an own property (\<open>get_prop\<close> is only used for these two names, which no
  prototype defines).
\<close>

fun truthy :: "json \<Rightarrow> bool" where
  "truthy JNull = False"
| "truthy (JBool b) = b"
| "truthy (JNum n) = (n \<noteq> 0)"
| "truthy (JStr s) = (s \<noteq> [])"
| "truthy (JArr _) = True"
| "truthy (JObj _) = True"

fun get_prop :: "json \<Rightarrow> string \<Rightarrow> json option outcome" where
  "get_prop JNull k = Throws"
| "get_prop (JObj kvs) k = Returns (map_of kvs k)"
| "get_prop _ k = Returns None"

definition truthy_opt :: "json option \<Rightarrow> bool" where
  "truthy_opt v = (case v of None \<Rightarrow> False | Some x \<Rightarrow> truthy x)"

section \<open>JSON text\<close>

text \<open>
  \<^verbatim>\<open>JSON.stringify\<close> and \<^verbatim>\<open>JSON.parse\<close> are the platform's; they are
  modelled here on the values above, after ECMA-262 (\<open>SerializeJSONProperty\<close>,
  \<open>QuoteJSONString\<close>, the JSON grammar).
\<close>

definition dquote :: char where "dquote = CHR 0x22"
definition backslash :: char where "backslash = CHR 0x5C"
definition LF :: char where "LF = CHR 0x0A"

subsection \<open>Writing\<close>

definition hex_char :: "nat \<Rightarrow> char" where
  "hex_char d = (if d < 10 then char_of (48 + d) else char_of (87 + d))"

text \<open>
  A code unit of a string is written as itself, but for the quotation mark,
  the backslash and the control characters, which are escaped.
\<close>

definition quote_unit :: "char \<Rightarrow> string" where
  "quote_unit c =
     (if c = CHR 0x08 then [backslash, CHR ''b'']
      else if c = CHR 0x09 then [backslash, CHR ''t'']
      else if c = CHR 0x0A then [backslash, CHR ''n'']
      else if c = CHR 0x0C then [backslash, CHR ''f'']
      else if c = CHR 0x0D then [backslash, CHR ''r'']
      else if c = dquote then [backslash, dquote]
      else if c = backslash then [backslash, backslash]
      else if (of_char c :: nat) < 32
        then [backslash, CHR ''u'', CHR ''0'', CHR ''0'',
              hex_char (of_char c div 16), hex_char (of_char c mod 16)]
      else [c])"

definition quote :: "string \<Rightarrow> string" where
  "quote s = dquote # concat (map quote_unit s) @ [dquote]"

fun join :: "'a list \<Rightarrow> 'a list list \<Rightarrow> 'a list" where
  "join sep [] = []"
| "join sep [x] = x"
| "join sep (x # y # ys) = x @ sep @ join sep (y # ys)"

text \<open>
  \<open>gap\<close> is the indentation unit and \<open>ind\<close> the current indentation. With an
  empty gap the text has no white space at all; otherwise every element and
  member starts a line, and a colon is followed by one space.
\<close>

fun serialize :: "string \<Rightarrow> string \<Rightarrow> json \<Rightarrow> string" where
  "serialize gap ind JNull = ''null''"
| "serialize gap ind (JBool b) = (if b then ''true'' else ''false'')"
| "serialize gap ind (JNum n) = show_int n"
| "serialize gap ind (JStr s) = quote s"
| "serialize gap ind (JArr xs) =
     (if xs = [] then ''[]''
      else let partial = map (serialize gap (ind @ gap)) xs
           in if gap = [] then ''['' @ join '','' partial @ '']''
              else ''['' @ [LF] @ ind @ gap @ join ('','' @ [LF] @ ind @ gap) partial
                   @ [LF] @ ind @ '']'')"
| "serialize gap ind (JObj kvs) =
     (if kvs = [] then ''{}''
      else let partial = map (\<lambda>(k, v). quote k @ '':'' @ (if gap = [] then [] else '' '')
                                        @ serialize gap (ind @ gap) v) kvs
           in if gap = [] then ''{'' @ join '','' partial @ ''}''
              else ''{'' @ [LF] @ ind @ gap @ join ('','' @ [LF] @ ind @ gap) partial
                   @ [LF] @ ind @ ''}'')"

text \<open>
  \<^verbatim>\<open>JSON.stringify(v, null, space)\<close> for a number \<open>space\<close>; \<^verbatim>\<open>JSON.stringify(v)\<close>
  is \<open>JSON_stringify 0 v\<close>.
\<close>

definition JSON_stringify :: "nat \<Rightarrow> json \<Rightarrow> string" where
  "JSON_stringify space v = serialize (replicate (min space 10) CHR '' '') [] v"

subsection \<open>Reading\<close>

text \<open>
  The text is cut into tokens, and the tokens are read by a machine with a
  stack of the arrays and objects that are still open. Three kinds of text
  are \<open>Unmodelled\<close>: a number with a fraction or an exponent, or beyond the
  safe integers (a double would round it); an escape \<^verbatim>\<open>\u\<close> of a code unit
  from 256 on; and an object key made of digits only (JavaScript orders the
  integer keys of an object before the others). White space is SP, TAB, LF
  and CR.
\<close>

datatype token =
  TLBracket | TRBracket | TLBrace | TRBrace | TComma | TColon
  | TString string | TNumber int | TTrue | TFalse | TNull

definition is_json_ws :: "char \<Rightarrow> bool" where
  "is_json_ws c \<longleftrightarrow> of_char c \<in> {9, 10, 13, 32 :: nat}"

definition hex_val :: "char \<Rightarrow> nat option" where
  "hex_val c =
     (let n = of_char c :: nat
      in if 48 \<le> n \<and> n \<le> 57 then Some (n - 48)
         else if 97 \<le> n \<and> n \<le> 102 then Some (n - 87)
         else if 65 \<le> n \<and> n \<le> 70 then Some (n - 55)
         else None)"

definition unescape :: "char \<Rightarrow> char option" where
  "unescape e =
     (if e = dquote then Some dquote
      else if e = backslash then Some backslash
      else if e = CHR ''/'' then Some CHR ''/''
      else if e = CHR ''b'' then Some (CHR 0x08)
      else if e = CHR ''f'' then Some (CHR 0x0C)
      else if e = CHR ''n'' then Some (CHR 0x0A)
      else if e = CHR ''r'' then Some (CHR 0x0D)
      else if e = CHR ''t'' then Some (CHR 0x09)
      else None)"

definition hex4 :: "char \<Rightarrow> char \<Rightarrow> char \<Rightarrow> char \<Rightarrow> nat option" where
  "hex4 a b c d =
     (case (hex_val a, hex_val b, hex_val c, hex_val d) of
        (Some w, Some x, Some y, Some z) \<Rightarrow> Some (((w * 16 + x) * 16 + y) * 16 + z)
      | _ \<Rightarrow> None)"

text \<open>
  \<open>lex_string\<close> reads a string after its opening quotation mark, and returns
  it with the text after the closing one. A control character in a string is
  a syntax error.
\<close>

fun lex_string :: "string \<Rightarrow> (string \<times> string) outcome" where
  "lex_string [] = Throws"
| "lex_string (c # cs) =
     (if c = dquote then Returns ([], cs)
      else if c = backslash then
        (case cs of
           [] \<Rightarrow> Throws
         | e # r \<Rightarrow>
             if e = CHR ''u'' then
               (case r of
                  h1 # h2 # h3 # h4 # r' \<Rightarrow>
                    (case hex4 h1 h2 h3 h4 of
                       None \<Rightarrow> Throws
                     | Some n \<Rightarrow>
                         if n < 256 then omap (\<lambda>(s, t). (char_of n # s, t)) (lex_string r')
                         else Unmodelled)
                | _ \<Rightarrow> Throws)
             else
               (case unescape e of
                  None \<Rightarrow> Throws
                | Some x \<Rightarrow> omap (\<lambda>(s, t). (x # s, t)) (lex_string r)))
      else if (of_char c :: nat) < 32 then Throws
      else omap (\<lambda>(s, t). (c # s, t)) (lex_string cs))"

text \<open>
  \<open>lex_number\<close> reads a number that starts the text: a minus sign, then a
  single \<^verbatim>\<open>0\<close> or a run of digits.
\<close>

definition lex_number :: "string \<Rightarrow> (int \<times> string) outcome" where
  "lex_number s =
     (let neg = (s \<noteq> [] \<and> hd s = CHR ''-'');
          u = (if neg then tl s else s);
          ds = (if u \<noteq> [] \<and> hd u = CHR ''0'' then ''0'' else takeWhile is_digit u);
          r = drop (length ds) u
      in if ds = [] then Throws
         else if r \<noteq> [] \<and> (hd r = CHR ''.'' \<or> hd r = CHR ''e'' \<or> hd r = CHR ''E'') then Unmodelled
         else if int (digits_val ds) > MAX_SAFE_INTEGER then Unmodelled
         else Returns (if neg then - int (digits_val ds) else int (digits_val ds), r))"

text \<open>The token that starts with the character \<open>c\<close>, which is not white space.\<close>

definition punctuation :: "char \<Rightarrow> token option" where
  "punctuation c =
     (if c = CHR ''['' then Some TLBracket
      else if c = CHR '']'' then Some TRBracket
      else if c = CHR ''{'' then Some TLBrace
      else if c = CHR ''}'' then Some TRBrace
      else if c = CHR '','' then Some TComma
      else if c = CHR '':'' then Some TColon
      else None)"

definition lex_literal :: "string \<Rightarrow> (token \<times> string) outcome" where
  "lex_literal s =
     (if take 4 s = ''true'' then Returns (TTrue, drop 4 s)
      else if take 5 s = ''false'' then Returns (TFalse, drop 5 s)
      else if take 4 s = ''null'' then Returns (TNull, drop 4 s)
      else Throws)"

definition lex_token :: "char \<Rightarrow> string \<Rightarrow> (token \<times> string) outcome" where
  "lex_token c cs =
     (case punctuation c of
        Some t \<Rightarrow> Returns (t, cs)
      | None \<Rightarrow>
          if c = dquote then omap (\<lambda>(s, r). (TString s, r)) (lex_string cs)
          else if c = CHR ''-'' \<or> is_digit c then omap (\<lambda>(n, r). (TNumber n, r)) (lex_number (c # cs))
          else lex_literal (c # cs))"

lemma lex_string_length: "lex_string cs = Returns (s, r) \<Longrightarrow> length r < length cs"
proof (induction cs arbitrary: s r rule: length_induct)
  case (1 xs)
  have IH: "\<And>ys s r. length ys < length xs \<Longrightarrow> lex_string ys = Returns (s, r) \<Longrightarrow> length r < length ys"
    using "1.IH" by blast
  show ?case
  proof (cases xs)
    case Nil
    with "1.prems" show ?thesis by simp
  next
    case (Cons c cs)
    show ?thesis
      using "1.prems" unfolding Cons
      by (auto split: if_splits list.splits option.splits elim!: omap.elims dest!: IH[unfolded Cons, rotated])
  qed
qed

lemma lex_number_length:
  assumes "lex_number cs = Returns (n, r)"
  shows "length r < length cs"
proof -
  define u where "u = (if cs \<noteq> [] \<and> hd cs = CHR ''-'' then tl cs else cs)"
  define ds where "ds = (if u \<noteq> [] \<and> hd u = CHR ''0'' then ''0'' else takeWhile is_digit u)"
  have r: "r = drop (length ds) u" and ne: "ds \<noteq> []"
    using assms by (auto simp: lex_number_def Let_def u_def ds_def split: if_splits)
  have "length ds \<le> length u"
    by (cases u) (auto simp: ds_def length_takeWhile_le)
  moreover have "length u \<le> length cs"
    by (simp add: u_def)
  ultimately show ?thesis
    using r ne by (cases ds) auto
qed

lemma lex_literal_length: "lex_literal (c # cs) = Returns (t, r) \<Longrightarrow> length r \<le> length cs"
  by (auto simp: lex_literal_def split: if_splits)

lemma lex_token_length:
  assumes "lex_token c cs = Returns (t, r)"
  shows "length r \<le> length cs"
proof (cases "punctuation c")
  case (Some p)
  then show ?thesis using assms by (simp add: lex_token_def)
next
  case None
  show ?thesis
  proof (cases "c = dquote")
    case True
    then obtain x where "lex_string cs = Returns (x, r)"
      using assms None by (auto simp: lex_token_def elim!: omap.elims)
    from lex_string_length[OF this] show ?thesis by simp
  next
    case nq: False
    show ?thesis
    proof (cases "c = CHR ''-'' \<or> is_digit c")
      case True
      then obtain x where "lex_number (c # cs) = Returns (x, r)"
        using assms None nq by (auto simp: lex_token_def elim!: omap.elims)
      from lex_number_length[OF this] show ?thesis by simp
    next
      case False
      then have "lex_literal (c # cs) = Returns (t, r)"
        using assms None nq by (simp add: lex_token_def)
      then show ?thesis by (rule lex_literal_length)
    qed
  qed
qed

fun otok :: "token \<Rightarrow> token list outcome \<Rightarrow> token list outcome" where
  "otok t (Returns ts) = Returns (t # ts)"
| "otok t Throws = Throws"
| "otok t Unmodelled = Unmodelled"

function tokenize :: "string \<Rightarrow> token list outcome" where
  "tokenize [] = Returns []"
| "tokenize (c # cs) =
     (if is_json_ws c then tokenize cs
      else (case lex_token c cs of
              Returns (t, r) \<Rightarrow> otok t (tokenize r)
            | Throws \<Rightarrow> Throws
            | Unmodelled \<Rightarrow> Unmodelled))"
  by pat_completeness auto
termination
proof (relation "measure length")
  show "wf (measure length)" by simp
qed (auto dest: lex_token_length)

declare tokenize.simps [simp del]

text \<open>
  The machine. A frame is an open array with its elements so far, or an open
  object with its members so far and the key being read. A property that is
  defined twice keeps its first place and takes the last value.
\<close>

datatype frame = FArr "json list" | FObj "(string \<times> json) list" string

datatype mode =
  WantValue | WantValueOrClose | WantKeyOrClose | WantKey | WantColon | WantSep | Done json

fun attach :: "json \<Rightarrow> frame list \<Rightarrow> mode \<times> frame list" where
  "attach v [] = (Done v, [])"
| "attach v (FArr es # st) = (WantSep, FArr (es @ [v]) # st)"
| "attach v (FObj ms k # st) = (WantSep, FObj (AList.update k v ms) k # st)"

fun value_step :: "token \<Rightarrow> frame list \<Rightarrow> (mode \<times> frame list) outcome" where
  "value_step TNull st = Returns (attach JNull st)"
| "value_step TTrue st = Returns (attach (JBool True) st)"
| "value_step TFalse st = Returns (attach (JBool False) st)"
| "value_step (TNumber n) st = Returns (attach (JNum n) st)"
| "value_step (TString s) st = Returns (attach (JStr s) st)"
| "value_step TLBracket st = Returns (WantValueOrClose, FArr [] # st)"
| "value_step TLBrace st = Returns (WantKeyOrClose, FObj [] [] # st)"
| "value_step _ st = Throws"

fun key_step :: "token \<Rightarrow> frame list \<Rightarrow> (mode \<times> frame list) outcome" where
  "key_step (TString k) (FObj ms k' # st) =
     (if index_like k then Unmodelled else Returns (WantColon, FObj ms k # st))"
| "key_step _ _ = Throws"

fun close_step :: "token \<Rightarrow> frame list \<Rightarrow> (mode \<times> frame list) outcome" where
  "close_step TRBracket (FArr es # st) = Returns (attach (JArr es) st)"
| "close_step TRBrace (FObj ms k # st) = Returns (attach (JObj ms) st)"
| "close_step _ _ = Throws"

fun sep_step :: "token \<Rightarrow> frame list \<Rightarrow> (mode \<times> frame list) outcome" where
  "sep_step TComma (FArr es # st) = Returns (WantValue, FArr es # st)"
| "sep_step TComma (FObj ms k # st) = Returns (WantKey, FObj ms k # st)"
| "sep_step t st = close_step t st"

fun step :: "token \<Rightarrow> mode \<Rightarrow> frame list \<Rightarrow> (mode \<times> frame list) outcome" where
  "step t WantValue st = value_step t st"
| "step t WantValueOrClose st = (if t = TRBracket then close_step t st else value_step t st)"
| "step t WantKeyOrClose st = (if t = TRBrace then close_step t st else key_step t st)"
| "step t WantKey st = key_step t st"
| "step t WantColon st = (if t = TColon then Returns (WantValue, st) else Throws)"
| "step t WantSep st = sep_step t st"
| "step t (Done v) st = Throws"

fun run :: "token list \<Rightarrow> mode \<Rightarrow> frame list \<Rightarrow> json outcome" where
  "run [] m st = (case m of Done v \<Rightarrow> Returns v | _ \<Rightarrow> Throws)"
| "run (t # ts) m st =
     (case step t m st of
        Returns (m', st') \<Rightarrow> run ts m' st'
      | Throws \<Rightarrow> Throws
      | Unmodelled \<Rightarrow> Unmodelled)"

definition JSON_parse :: "string \<Rightarrow> json outcome" where
  "JSON_parse text = obind (tokenize text) (\<lambda>ts. run ts WantValue [])"

section \<open>The component state\<close>

record state =
  cards :: "json list"
  currentIndex :: number
  isFlipped :: bool
  isEditing :: bool
  newCardFront :: string
  newCardBack :: string
  showExportModal :: bool
  exportText :: string

text \<open>The object literal \<^verbatim>\<open>{ front: f, back: b }\<close>.\<close>

definition make_card :: "string \<Rightarrow> string \<Rightarrow> json" where
  "make_card f b = JObj [(''front'', JStr f), (''back'', JStr b)]"

definition defaultCards :: "json list" where
  "defaultCards =
     [make_card ''What is React?'' ''A JavaScript library for building user interfaces'',
      make_card ''What is a React Hook?''
           ''Functions that let you use state and other React features without writing a class'',
      make_card ''What is JSX?'' ''A syntax extension for JavaScript that looks similar to HTML'']"

text \<open>The state after the \<^verbatim>\<open>useState\<close> initialisers, for a deck and a cursor.\<close>

definition initial_state :: "json list \<Rightarrow> number \<Rightarrow> state" where
  "initial_state cs i =
     \<lparr>cards = cs, currentIndex = i, isFlipped = False, isEditing = False,
      newCardFront = [], newCardBack = [], showExportModal = False, exportText = []\<rparr>"

section \<open>Start-up and persistence\<close>

text \<open>
  \<^verbatim>\<open>localStorage\<close> maps keys to strings; \<^verbatim>\<open>getItem\<close> gives \<^verbatim>\<open>null\<close>
  (here \<open>None\<close>) for a missing key. The two \<^verbatim>\<open>useState\<close> initialisers read
  it: a missing or empty entry is falsy and gives the default. What
  \<^verbatim>\<open>JSON.parse\<close> returns becomes the deck as it is; the handlers are
  modelled on arrays, and a stored value that is no array is \<open>Unmodelled\<close>.
  An exception of \<^verbatim>\<open>JSON.parse\<close> ends the start-up.
\<close>

type_synonym storage = "string \<rightharpoonup> string"

definition init_cards :: "storage \<Rightarrow> json outcome" where
  "init_cards st =
     (case st ''flashcards'' of
        None \<Rightarrow> Returns (JArr defaultCards)
      | Some savedCards \<Rightarrow>
          if savedCards \<noteq> [] then JSON_parse savedCards else Returns (JArr defaultCards))"

definition init_currentIndex :: "storage \<Rightarrow> number outcome" where
  "init_currentIndex st =
     (case st ''currentCardIndex'' of
        None \<Rightarrow> Returns (Num 0)
      | Some savedIndex \<Rightarrow>
          if savedIndex \<noteq> [] then parseInt10 savedIndex else Returns (Num 0))"

definition init :: "storage \<Rightarrow> state outcome" where
  "init st =
     (case init_cards st of
        Throws \<Rightarrow> Throws
      | Unmodelled \<Rightarrow> Unmodelled
      | Returns (JArr cs) \<Rightarrow> omap (initial_state cs) (init_currentIndex st)
      | Returns _ \<Rightarrow> Unmodelled)"

text \<open>
  The two effects write the deck and the cursor back after every render in
  which they changed.
\<close>

definition persist :: "state \<Rightarrow> storage \<Rightarrow> storage" where
  "persist s st =
     st(''flashcards'' \<mapsto> JSON_stringify 0 (JArr (cards s)),
        ''currentCardIndex'' \<mapsto> toString (currentIndex s))"

section \<open>The handlers\<close>

text \<open>
  \<open>navigate\<close> is called with the literals \<^verbatim>\<open>-1\<close> and \<^verbatim>\<open>1\<close>; its
  argument is the number that the integer \<open>direction\<close> denotes. The two
  additions are made from left to right, in doubles, and the length of an
  array is below \<open>2 ^ 32\<close>.
\<close>

definition navigate :: "int \<Rightarrow> state \<Rightarrow> state" where
  "navigate direction s =
     (let len = Num (int (length (cards s)));
          newIndex = js_rem (js_add (js_add (currentIndex s) (to_number direction)) len) len
      in s\<lparr>currentIndex := newIndex, isFlipped := False\<rparr>)"

text \<open>
  \<open>exportCards\<close> shows the deck as indented JSON. Serialising an array of
  JSON values does not throw, so the \<^verbatim>\<open>catch\<close> branch is never taken.
\<close>

definition exportCards :: "state \<Rightarrow> state" where
  "exportCards s = s\<lparr>exportText := JSON_stringify 2 (JArr (cards s)), showExportModal := True\<rparr>"

text \<open>
  \<open>importCards\<close> receives the chosen file, here its content, or \<open>None\<close> when
  no file was chosen. \<open>onload\<close> is the reader's callback. Each \<^verbatim>\<open>alert\<close> is a
  \<open>notice\<close>. The filter keeps the elements whose \<^verbatim>\<open>front\<close> and \<^verbatim>\<open>back\<close>
  are truthy; on the element \<^verbatim>\<open>null\<close> the property read throws, and the
  \<^verbatim>\<open>catch\<close> reports it as an error of reading the file. The result is
  \<open>None\<close> where \<^verbatim>\<open>JSON.parse\<close> is \<open>Unmodelled\<close>.
\<close>

datatype notice = Imported nat | NoValidCards | InvalidFormat | ErrorReadingFile

definition valid_card :: "json \<Rightarrow> bool outcome" where
  "valid_card c =
     obind (get_prop c ''front'')
       (\<lambda>front. if truthy_opt front then omap truthy_opt (get_prop c ''back'') else Returns False)"

fun filter_cards :: "json list \<Rightarrow> json list outcome" where
  "filter_cards [] = Returns []"
| "filter_cards (c # cs) =
     obind (valid_card c) (\<lambda>keep. omap (\<lambda>r. if keep then c # r else r) (filter_cards cs))"

definition onload :: "string \<Rightarrow> state \<Rightarrow> (notice \<times> state) option" where
  "onload text s =
     (case JSON_parse text of
        Unmodelled \<Rightarrow> None
      | Throws \<Rightarrow> Some (ErrorReadingFile, s)
      | Returns importedCards \<Rightarrow>
          (case importedCards of
             JArr xs \<Rightarrow>
               if length xs > 0 then
                 (case filter_cards xs of
                    Unmodelled \<Rightarrow> None
                  | Throws \<Rightarrow> Some (ErrorReadingFile, s)
                  | Returns validCards \<Rightarrow>
                      if length validCards > 0
                      then Some (Imported (length validCards),
                                 s\<lparr>cards := validCards, currentIndex := Num 0, isFlipped := False\<rparr>)
                      else Some (NoValidCards, s))
               else Some (InvalidFormat, s)
           | _ \<Rightarrow> Some (InvalidFormat, s)))"

definition importCards :: "string option \<Rightarrow> state \<Rightarrow> (notice list \<times> state) option" where
  "importCards file s =
     (case file of
        None \<Rightarrow> Some ([], s)
      | Some text \<Rightarrow> map_option (\<lambda>(n, s'). ([n], s')) (onload text s))"

definition addCard :: "state \<Rightarrow> state" where
  "addCard s =
     (if js_trim (newCardFront s) = [] \<or> js_trim (newCardBack s) = [] then s
      else s\<lparr>cards := cards s @ [make_card (newCardFront s) (newCardBack s)],
             newCardFront := [], newCardBack := [], isEditing := False\<rparr>)"

text \<open>
  \<^verbatim>\<open>Array.prototype.splice(start, 1)\<close>: the start is made an integer
  (\<^verbatim>\<open>NaN\<close> becomes 0), a negative one counts from the end, and it is
  clamped to the array (so the infinities become the two ends); at most one
  element is removed, none when the start is the length.
\<close>

fun splice_start :: "number \<Rightarrow> nat \<Rightarrow> nat" where
  "splice_start NaN len = 0"
| "splice_start (Num i) len = (if i < 0 then nat (max (int len + i) 0) else nat (min i (int len)))"
| "splice_start Infinity len = len"
| "splice_start NegInfinity len = 0"

definition splice1 :: "number \<Rightarrow> 'a list \<Rightarrow> 'a list" where
  "splice1 start xs =
     (let a = splice_start start (length xs);
          deleteCount = min 1 (length xs - a)
      in take a xs @ drop (a + deleteCount) xs)"

definition deleteCard :: "state \<Rightarrow> state" where
  "deleteCard s =
     (if length (cards s) \<le> 1 then s
      else let newCards = splice1 (currentIndex s) (cards s)
           in s\<lparr>cards := newCards,
                 currentIndex := Math_min (currentIndex s) (Num (int (length newCards) - 1)),
                 isFlipped := False\<rparr>)"

text \<open>
  The shuffle draws \<^verbatim>\<open>Math.random()\<close> once for each \<open>i\<close> from the last index
  down to 1. The draws are the function \<open>rnd\<close> (the \<open>k\<close>-th call returns
  \<open>rnd k\<close>, a number in \<open>[0, 1)\<close>); \<open>j\<close> is the floor of the product. The
  destructuring swap reads both elements, then writes index \<open>i\<close>, then \<open>j\<close>.
\<close>

fun shuffle_loop :: "(nat \<Rightarrow> real) \<Rightarrow> nat \<Rightarrow> nat \<Rightarrow> 'a list \<Rightarrow> 'a list" where
  "shuffle_loop rnd k 0 xs = xs"
| "shuffle_loop rnd k (Suc i) xs =
     (let j = nat \<lfloor>rnd k * of_nat (Suc i + 1)\<rfloor>
      in shuffle_loop rnd (Suc k) i (xs[Suc i := xs ! j, j := xs ! Suc i]))"

definition shuffleCards :: "(nat \<Rightarrow> real) \<Rightarrow> state \<Rightarrow> state" where
  "shuffleCards rnd s =
     s\<lparr>cards := shuffle_loop rnd 0 (length (cards s) - 1) (cards s), currentIndex := Num 0\<rparr>"

text \<open>\<open>confirmed\<close> is the answer to \<^verbatim>\<open>window.confirm\<close>.\<close>

definition resetCards :: "bool \<Rightarrow> state \<Rightarrow> state" where
  "resetCards confirmed s =
     (if confirmed then s\<lparr>cards := defaultCards, currentIndex := Num 0, isFlipped := False\<rparr>
      else s)"

text \<open>
  The key handler: the arrows navigate and the space bar flips the card,
  unless the form is open.
\<close>

definition handleKeyDown :: "string \<Rightarrow> state \<Rightarrow> state" where
  "handleKeyDown key s =
     (if isEditing s then s
      else if key = ''ArrowLeft'' then navigate (- 1) s
      else if key = ''ArrowRight'' then navigate 1 s
      else if key = '' '' then s\<lparr>isFlipped := \<not> isFlipped s\<rparr>
      else s)"

section \<open>Events\<close>

text \<open>
  The events the page can receive, the states in which its controls are
  rendered (\<open>enabled\<close>), and their handlers. The card view, with its
  buttons, is rendered for a non-empty deck when neither the form nor the
  export panel is open; the delete button is disabled on a deck of one card.
  The reader calls \<open>onload\<close> back when the chosen file has been read, in
  whatever state the page is by then: \<open>ChooseFile\<close> stands where the
  callback runs and is enabled in every state.
  \<open>reachable st0 s st\<close>: from the storage \<open>st0\<close> the page can come to the
  state \<open>s\<close> with the storage \<open>st\<close>, by events and by reloading the page.
  The import of a text on which \<open>JSON_parse\<close> is \<open>Unmodelled\<close> is not among
  these events (\<open>handle\<close> is \<open>None\<close> there), so the decks that only such an
  import installs, one with the number \<^verbatim>\<open>Infinity\<close> for instance, are not
  among these states.
  \<^verbatim>\<open>Math.random\<close> returns numbers in \<open>[0, 1)\<close> (\<open>random_ok\<close>).
\<close>

datatype event =
    KeyDown string
  | ClickPrevious | ClickNext
  | ClickAddCard | ClickDeleteCard | ClickResetAll bool
  | ClickShuffle "nat \<Rightarrow> real" | ClickExport | ChooseFile "string option"
  | ChangeFront string | ChangeBack string | ClickSave | ClickCancel
  | ClickCopy | ClickClose

definition card_view :: "state \<Rightarrow> bool" where
  "card_view s \<longleftrightarrow> length (cards s) > 0 \<and> \<not> isEditing s \<and> \<not> showExportModal s"

fun enabled :: "event \<Rightarrow> state \<Rightarrow> bool" where
  "enabled (KeyDown key) s = True"
| "enabled ClickDeleteCard s = (card_view s \<and> \<not> length (cards s) \<le> 1)"
| "enabled (ChangeFront t) s = isEditing s"
| "enabled (ChangeBack t) s = isEditing s"
| "enabled ClickSave s = isEditing s"
| "enabled ClickCancel s = isEditing s"
| "enabled ClickCopy s = showExportModal s"
| "enabled ClickClose s = showExportModal s"
| "enabled (ChooseFile f) s = True"
| "enabled _ s = card_view s"

fun handle :: "event \<Rightarrow> state \<Rightarrow> state option" where
  "handle (KeyDown key) s = Some (handleKeyDown key s)"
| "handle ClickPrevious s = Some (navigate (- 1) s)"
| "handle ClickNext s = Some (navigate 1 s)"
| "handle ClickAddCard s = Some (s\<lparr>isEditing := True\<rparr>)"
| "handle ClickDeleteCard s = Some (deleteCard s)"
| "handle (ClickResetAll confirmed) s = Some (resetCards confirmed s)"
| "handle (ClickShuffle rnd) s = Some (shuffleCards rnd s)"
| "handle ClickExport s = Some (exportCards s)"
| "handle (ChooseFile file) s = map_option snd (importCards file s)"
| "handle (ChangeFront t) s = Some (s\<lparr>newCardFront := t\<rparr>)"
| "handle (ChangeBack t) s = Some (s\<lparr>newCardBack := t\<rparr>)"
| "handle ClickSave s = Some (addCard s)"
| "handle ClickCancel s = Some (s\<lparr>isEditing := False\<rparr>)"
| "handle ClickCopy s = Some s"
| "handle ClickClose s = Some (s\<lparr>showExportModal := False\<rparr>)"

definition random_ok :: "event \<Rightarrow> bool" where
  "random_ok e = (case e of ClickShuffle rnd \<Rightarrow> \<forall>k. 0 \<le> rnd k \<and> rnd k < 1 | _ \<Rightarrow> True)"

inductive reachable :: "storage \<Rightarrow> state \<Rightarrow> storage \<Rightarrow> bool" for st0 where
  start: "init st0 = Returns s \<Longrightarrow> reachable st0 s (persist s st0)"
| event: "reachable st0 s st \<Longrightarrow> enabled e s \<Longrightarrow> random_ok e \<Longrightarrow> handle e s = Some s' \<Longrightarrow>
          reachable st0 s' (persist s' st)"
| reload: "reachable st0 s st \<Longrightarrow> init st = Returns s' \<Longrightarrow> reachable st0 s' (persist s' st)"

fun run_events :: "event list \<Rightarrow> state \<Rightarrow> state option" where
  "run_events [] s = Some s"
| "run_events (e # es) s =
     (if enabled e s then (case handle e s of None \<Rightarrow> None | Some s' \<Rightarrow> run_events es s') else None)"

section \<open>Reading back what was written\<close>

text \<open>
  \<open>JSON_parse\<close> returns every well-formed value from the text that
  \<open>JSON_stringify\<close> writes for it, with or without indentation
  (\<open>JSON_parse_serialize\<close>), and every value it returns is well formed
  (\<open>JSON_parse_wf\<close>).
\<close>

subsection \<open>Numbers and strings\<close>

text \<open>
  The digits written for a number are read back as that number, provided no
  digit, point or exponent follows; a quoted string is read back code unit
  by code unit.
\<close>

lemma digit_char_is_digit: "d < 10 \<Longrightarrow> is_digit (digit_char d)"
  by (simp add: is_digit_def digit_char_def)

lemma digit_val_digit_char: "d < 10 \<Longrightarrow> digit_val (digit_char d) = d"
  by (simp add: digit_val_def digit_char_def)

lemma show_nat_digits: "list_all is_digit (show_nat n)"
proof (induction n rule: show_nat.induct)
  case (1 n)
  then show ?case
    by (subst show_nat.simps) (simp add: digit_char_is_digit)
qed

lemma show_nat_nonempty: "show_nat n \<noteq> []"
  by (subst show_nat.simps) simp

lemma digits_val_snoc: "digits_val (ds @ [c]) = 10 * digits_val ds + digit_val c"
  by (simp add: digits_val_def)

lemma digits_val_show_nat: "digits_val (show_nat n) = n"
proof (induction n rule: show_nat.induct)
  case (1 n)
  show ?case
  proof (cases "n < 10")
    case True
    then show ?thesis
      by (subst show_nat.simps) (simp add: digits_val_def digit_val_digit_char)
  next
    case False
    then show ?thesis
      using "1.IH" by (subst show_nat.simps) (simp add: digits_val_snoc digit_val_digit_char)
  qed
qed

lemma hd_show_nat_zero: "hd (show_nat n) = CHR ''0'' \<longleftrightarrow> n = 0"
proof (induction n rule: show_nat.induct)
  case (1 n)
  show ?case
  proof (cases "n < 10")
    case True
    have "digit_char n = CHR ''0'' \<longleftrightarrow> n = 0"
      using True by (auto simp: digit_char_def char_of_eq_iff take_bit_eq_mod)
    with True show ?thesis
      by (subst show_nat.simps) simp
  next
    case False
    then have "n div 10 \<noteq> 0" by simp
    with False "1.IH" show ?thesis
      by (subst show_nat.simps) (simp add: show_nat_nonempty)
  qed
qed

lemma show_nat_0: "show_nat 0 = ''0''"
  by (subst show_nat.simps) (simp add: digit_char_def char_of_eq_iff take_bit_eq_mod)

definition number_follows :: "string \<Rightarrow> bool" where
  "number_follows r \<longleftrightarrow>
     r \<noteq> [] \<and> (is_digit (hd r) \<or> hd r = CHR ''.'' \<or> hd r = CHR ''e'' \<or> hd r = CHR ''E'')"

lemma takeWhile_digits_append:
  "list_all is_digit ds \<Longrightarrow> r = [] \<or> \<not> is_digit (hd r) \<Longrightarrow> takeWhile is_digit (ds @ r) = ds"
  by (cases r) (auto simp: takeWhile_append list_all_iff)

lemma lex_number_show_nat:
  assumes "int n \<le> MAX_SAFE_INTEGER" and "\<not> number_follows r"
  shows "lex_number (show_nat n @ r) = Returns (int n, r)"
proof (cases "n = 0")
  case True
  then show ?thesis
    using assms by (auto simp: show_nat_0 lex_number_def number_follows_def digits_val_def digit_val_def MAX_SAFE_INTEGER_def)
next
  case False
  let ?ds = "show_nat n"
  have h: "hd (?ds @ r) \<noteq> CHR ''0''" "hd (?ds @ r) \<noteq> CHR ''-''"
    using False hd_show_nat_zero[of n] show_nat_digits[of n] show_nat_nonempty[of n]
    by (cases "show_nat n"; auto simp: is_digit_def)+
  have tw: "takeWhile is_digit (?ds @ r) = ?ds"
    using assms(2) by (intro takeWhile_digits_append show_nat_digits) (auto simp: number_follows_def)
  show ?thesis
    using assms h tw show_nat_nonempty[of n]
    by (auto simp: lex_number_def Let_def digits_val_show_nat number_follows_def)
qed

lemma lex_number_show_int:
  assumes "\<bar>i\<bar> \<le> MAX_SAFE_INTEGER" and "\<not> number_follows r"
  shows "lex_number (show_int i @ r) = Returns (i, r)"
proof (cases "i < 0")
  case False
  then show ?thesis
    using lex_number_show_nat[of "nat i" r] assms by (simp add: show_int_def)
next
  case True
  let ?n = "nat (- i)"
  let ?ds = "show_nat ?n"
  have n0: "?n \<noteq> 0" using True by simp
  have h: "hd (?ds @ r) \<noteq> CHR ''0''"
    using n0 hd_show_nat_zero[of ?n] show_nat_nonempty[of ?n] by (cases ?ds) auto
  have tw: "takeWhile is_digit (?ds @ r) = ?ds"
    using assms(2) by (intro takeWhile_digits_append show_nat_digits) (auto simp: number_follows_def)
  show ?thesis
    using assms True h tw show_nat_nonempty[of ?n]
    by (auto simp: show_int_def lex_number_def Let_def digits_val_show_nat number_follows_def)
qed

lemma hex_val_hex_char: "d < 16 \<Longrightarrow> hex_val (hex_char d) = Some d"
  by (auto simp: hex_val_def hex_char_def Let_def)

lemma hex4_control:
  assumes "n < 32"
  shows "hex4 CHR ''0'' CHR ''0'' (hex_char (n div 16)) (hex_char (n mod 16)) = Some n"
proof -
  have "n div 16 < 16" using assms by simp
  then have a: "hex_val (hex_char (n div 16)) = Some (n div 16)"
    by (rule hex_val_hex_char)
  have b: "hex_val (hex_char (n mod 16)) = Some (n mod 16)"
    by (rule hex_val_hex_char) simp
  have z: "hex_val CHR ''0'' = Some 0"
    by (simp add: hex_val_def)
  show ?thesis
    by (simp add: hex4_def a b z)
qed

lemma lex_string_plain:
  "c \<noteq> dquote \<Longrightarrow> c \<noteq> backslash \<Longrightarrow> \<not> (of_char c :: nat) < 32 \<Longrightarrow>
   lex_string (c # rest) = omap (\<lambda>(s, t). (c # s, t)) (lex_string rest)"
  by simp

lemma lex_string_short_escape:
  "unescape e = Some x \<Longrightarrow> e \<noteq> CHR ''u'' \<Longrightarrow>
   lex_string (backslash # e # rest) = omap (\<lambda>(s, t). (x # s, t)) (lex_string rest)"
  by (simp add: backslash_def dquote_def)

lemma lex_string_control:
  assumes "(of_char c :: nat) < 32"
  shows "lex_string ([backslash, CHR ''u'', CHR ''0'', CHR ''0'',
            hex_char (of_char c div 16), hex_char (of_char c mod 16)] @ rest)
         = omap (\<lambda>(s, t). (c # s, t)) (lex_string rest)"
  using hex4_control[OF assms] assms by (simp add: backslash_def dquote_def)

lemma lex_quote_unit:
  "lex_string (quote_unit c @ rest) = omap (\<lambda>(s, t). (c # s, t)) (lex_string rest)"
proof -
  consider (b) "c = CHR 0x08" | (t) "c = CHR 0x09" | (n) "c = CHR 0x0A" | (f) "c = CHR 0x0C"
    | (r) "c = CHR 0x0D" | (q) "c = dquote" | (s) "c = backslash"
    | (ctl) "c \<notin> {CHR 0x08, CHR 0x09, CHR 0x0A, CHR 0x0C, CHR 0x0D, dquote, backslash}" "(of_char c :: nat) < 32"
    | (plain) "c \<notin> {CHR 0x08, CHR 0x09, CHR 0x0A, CHR 0x0C, CHR 0x0D, dquote, backslash}" "\<not> (of_char c :: nat) < 32"
    by blast
  then show ?thesis
  proof cases
    case b
    then show ?thesis
      using lex_string_short_escape[of "CHR ''b''" "CHR 0x08" rest]
      by (simp add: quote_unit_def unescape_def dquote_def backslash_def)
  next
    case t
    then show ?thesis
      using lex_string_short_escape[of "CHR ''t''" "CHR 0x09" rest]
      by (simp add: quote_unit_def unescape_def dquote_def backslash_def)
  next
    case n
    then show ?thesis
      using lex_string_short_escape[of "CHR ''n''" "CHR 0x0A" rest]
      by (simp add: quote_unit_def unescape_def dquote_def backslash_def)
  next
    case f
    then show ?thesis
      using lex_string_short_escape[of "CHR ''f''" "CHR 0x0C" rest]
      by (simp add: quote_unit_def unescape_def dquote_def backslash_def)
  next
    case r
    then show ?thesis
      using lex_string_short_escape[of "CHR ''r''" "CHR 0x0D" rest]
      by (simp add: quote_unit_def unescape_def dquote_def backslash_def)
  next
    case q
    then show ?thesis
      using lex_string_short_escape[of dquote dquote rest]
      by (simp add: quote_unit_def unescape_def dquote_def backslash_def)
  next
    case s
    then show ?thesis
      using lex_string_short_escape[of backslash backslash rest]
      by (simp add: quote_unit_def unescape_def dquote_def backslash_def)
  next
    case ctl
    then show ?thesis
      using lex_string_control[of c rest] by (simp add: quote_unit_def)
  next
    case plain
    then show ?thesis
      using lex_string_plain[of c rest] by (simp add: quote_unit_def)
  qed
qed

lemma lex_string_quoted:
  "lex_string (concat (map quote_unit s) @ dquote # r) = Returns (s, r)"
proof (induction s)
  case Nil
  then show ?case by simp
next
  case (Cons c s)
  have "lex_string (concat (map quote_unit (c # s)) @ dquote # r)
      = lex_string (quote_unit c @ (concat (map quote_unit s) @ dquote # r))"
    by simp
  also have "\<dots> = omap (\<lambda>(s, t). (c # s, t)) (lex_string (concat (map quote_unit s) @ dquote # r))"
    by (rule lex_quote_unit)
  also have "\<dots> = Returns (c # s, r)"
    by (simp add: Cons.IH)
  finally show ?case .
qed

subsection \<open>The tokens of a written value\<close>

text \<open>
  \<open>toks v\<close> are the tokens of the value \<open>v\<close>. The tokenizer finds them in the
  written text, whatever the indentation, when the text is followed by
  nothing, a comma, a closing bracket or a line feed (\<open>delimited\<close>).
\<close>

fun toks :: "json \<Rightarrow> token list" where
  "toks JNull = [TNull]"
| "toks (JBool b) = [if b then TTrue else TFalse]"
| "toks (JNum n) = [TNumber n]"
| "toks (JStr s) = [TString s]"
| "toks (JArr xs) = TLBracket # join [TComma] (map toks xs) @ [TRBracket]"
| "toks (JObj kvs) =
     TLBrace # join [TComma] (map (\<lambda>(k, v). TString k # TColon # toks v) kvs) @ [TRBrace]"

fun otoks :: "token list \<Rightarrow> token list outcome \<Rightarrow> token list outcome" where
  "otoks ts (Returns us) = Returns (ts @ us)"
| "otoks ts Throws = Throws"
| "otoks ts Unmodelled = Unmodelled"

lemma otoks_Nil [simp]: "otoks [] r = r"
  by (cases r) auto

lemma otoks_Cons [simp]: "otoks (t # ts) r = otok t (otoks ts r)"
  by (cases r) auto

lemma otoks_append [simp]: "otoks (ts @ us) r = otoks ts (otoks us r)"
  by (cases r) auto

definition delimited :: "string \<Rightarrow> bool" where
  "delimited r \<longleftrightarrow> r = [] \<or> hd r = CHR '','' \<or> hd r = CHR '']'' \<or> hd r = CHR ''}'' \<or> hd r = LF"

lemma delimited_not_number: "delimited r \<Longrightarrow> \<not> number_follows r"
  by (auto simp: delimited_def number_follows_def is_digit_def LF_def)

lemma tokenize_ws: "list_all is_json_ws ws \<Longrightarrow> tokenize (ws @ r) = tokenize r"
  by (induction ws) (auto simp: tokenize.simps)

lemma tokenize_LF: "tokenize (LF # r) = tokenize r"
  by (simp add: LF_def is_json_ws_def tokenize.simps)

lemma tokenize_punct:
  "tokenize (CHR ''['' # r) = otok TLBracket (tokenize r)"
  "tokenize (CHR '']'' # r) = otok TRBracket (tokenize r)"
  "tokenize (CHR ''{'' # r) = otok TLBrace (tokenize r)"
  "tokenize (CHR ''}'' # r) = otok TRBrace (tokenize r)"
  "tokenize (CHR '','' # r) = otok TComma (tokenize r)"
  "tokenize (CHR '':'' # r) = otok TColon (tokenize r)"
  by (simp_all add: is_json_ws_def tokenize.simps lex_token_def punctuation_def)

lemma tokenize_quote: "tokenize (quote s @ r) = otok (TString s) (tokenize r)"
proof -
  have p: "punctuation dquote = None" and w: "\<not> is_json_ws dquote"
    by (simp_all add: punctuation_def dquote_def is_json_ws_def)
  have "lex_token dquote (concat (map quote_unit s) @ dquote # r) = Returns (TString s, r)"
    by (simp add: lex_token_def p lex_string_quoted)
  then have "tokenize (dquote # (concat (map quote_unit s) @ dquote # r)) = otok (TString s) (tokenize r)"
    using w by (simp add: tokenize.simps)
  then show ?thesis by (simp add: quote_def)
qed

lemma tokenize_literals:
  "tokenize (CHR ''n'' # CHR ''u'' # CHR ''l'' # CHR ''l'' # r) = otok TNull (tokenize r)"
  "tokenize (CHR ''t'' # CHR ''r'' # CHR ''u'' # CHR ''e'' # r) = otok TTrue (tokenize r)"
  "tokenize (CHR ''f'' # CHR ''a'' # CHR ''l'' # CHR ''s'' # CHR ''e'' # r) = otok TFalse (tokenize r)"
  by (simp_all add: is_json_ws_def dquote_def is_digit_def tokenize.simps lex_token_def
        punctuation_def lex_literal_def)

lemma tokenize_show_int:
  assumes "\<bar>i\<bar> \<le> MAX_SAFE_INTEGER" and "delimited r"
  shows "tokenize (show_int i @ r) = otok (TNumber i) (tokenize r)"
proof -
  obtain c cs where cs: "show_int i = c # cs" and c: "c = CHR ''-'' \<or> is_digit c"
  proof (cases "i < 0")
    case True
    then show ?thesis using that by (simp add: show_int_def)
  next
    case False
    obtain d ds where "show_nat (nat i) = d # ds"
      using show_nat_nonempty[of "nat i"] by (cases "show_nat (nat i)") auto
    moreover from this have "is_digit d"
      using show_nat_digits[of "nat i"] by simp
    ultimately show ?thesis using that False by (simp add: show_int_def)
  qed
  have lex: "lex_number (c # cs @ r) = Returns (i, r)"
    using lex_number_show_int[OF assms(1) delimited_not_number[OF assms(2)]] cs by simp
  have nows: "\<not> is_json_ws c" and nopunct: "punctuation c = None" "c \<noteq> dquote"
    using c by (auto simp: is_json_ws_def is_digit_def dquote_def punctuation_def)
  show ?thesis
    unfolding cs using nows nopunct c lex by (simp add: tokenize.simps lex_token_def)
qed

lemma join_Cons: "ys \<noteq> [] \<Longrightarrow> join sep (x # ys) = x @ sep @ join sep ys"
  by (cases ys) auto

lemma tokenize_join:
  assumes "xs \<noteq> []"
    and "\<And>x r. x \<in> set xs \<Longrightarrow> delimited r \<Longrightarrow> tokenize (f x @ r) = otoks (g x) (tokenize r)"
    and "list_all is_json_ws ws"
    and "delimited r"
  shows "tokenize (join (CHR '','' # ws) (map f xs) @ r)
         = otoks (join [TComma] (map g xs)) (tokenize r)"
  using assms
proof (induction xs rule: list_nonempty_induct)
  case (single x)
  then show ?case by simp
next
  case (cons x xs)
  have d: "delimited (CHR '','' # ws @ join (CHR '','' # ws) (map f xs) @ r)"
    by (simp add: delimited_def)
  have "tokenize (join (CHR '','' # ws) (map f (x # xs)) @ r)
      = tokenize (f x @ (CHR '','' # ws @ join (CHR '','' # ws) (map f xs) @ r))"
    using cons.hyps by (simp add: join_Cons)
  also have "\<dots> = otoks (g x) (tokenize (CHR '','' # ws @ join (CHR '','' # ws) (map f xs) @ r))"
    using cons.prems(1)[OF _ d] by simp
  also have "\<dots> = otoks (g x) (otok TComma (tokenize (join (CHR '','' # ws) (map f xs) @ r)))"
    by (simp add: tokenize_punct tokenize_ws[OF cons.prems(2)])
  also have "\<dots> = otoks (g x) (otok TComma (otoks (join [TComma] (map g xs)) (tokenize r)))"
    using cons.IH[OF cons.prems(1) cons.prems(2) cons.prems(3)] by simp
  also have "\<dots> = otoks (join [TComma] (map g (x # xs))) (tokenize r)"
    using cons.hyps by (simp add: join_Cons)
  finally show ?case .
qed

lemma tokenize_block:
  assumes "xs \<noteq> []"
    and "\<And>x r. x \<in> set xs \<Longrightarrow> delimited r \<Longrightarrow> tokenize (f x @ r) = otoks (g x) (tokenize r)"
    and "list_all is_json_ws ind" and "list_all is_json_ws gap"
    and "cl = CHR '']'' \<or> cl = CHR ''}''"
  shows "tokenize ((if gap = [] then join '','' (map f xs) @ [cl]
                    else [LF] @ ind @ gap @ join ('','' @ [LF] @ ind @ gap) (map f xs)
                         @ [LF] @ ind @ [cl]) @ r)
         = otoks (join [TComma] (map g xs)) (tokenize (cl # r))"
proof (cases "gap = []")
  case True
  have "delimited (cl # r)" using assms(5) by (auto simp: delimited_def)
  from tokenize_join[where ws = "[]", OF assms(1) assms(2) _ this] True
  show ?thesis by simp
next
  case False
  have ws: "list_all is_json_ws (LF # ind @ gap)"
    using assms(3,4) by (simp add: LF_def is_json_ws_def)
  have d: "delimited (LF # ind @ cl # r)" by (simp add: delimited_def)
  have "tokenize (([LF] @ ind @ gap @ join ('','' @ [LF] @ ind @ gap) (map f xs)
                         @ [LF] @ ind @ [cl]) @ r)
      = tokenize ((LF # ind @ gap) @ (join (CHR '','' # (LF # ind @ gap)) (map f xs) @ (LF # ind @ cl # r)))"
    by simp
  also have "\<dots> = tokenize (join (CHR '','' # (LF # ind @ gap)) (map f xs) @ (LF # ind @ cl # r))"
    by (rule tokenize_ws[OF ws])
  also have "\<dots> = otoks (join [TComma] (map g xs)) (tokenize (LF # ind @ cl # r))"
    by (rule tokenize_join[OF assms(1) assms(2) ws d])
  also have "tokenize (LF # ind @ cl # r) = tokenize (cl # r)"
    by (simp add: tokenize_LF tokenize_ws[OF assms(3)])
  finally show ?thesis using False by simp
qed

lemma tokenize_serialize:
  assumes gap: "list_all is_json_ws gap"
  shows "wf_json v \<Longrightarrow> list_all is_json_ws ind \<Longrightarrow> delimited r \<Longrightarrow>
         tokenize (serialize gap ind v @ r) = otoks (toks v) (tokenize r)"
proof (induction v arbitrary: ind r)
  case JNull
  then show ?case by (simp add: tokenize_literals)
next
  case (JBool b)
  then show ?case by (cases b) (simp_all add: tokenize_literals)
next
  case (JNum n)
  then show ?case by (simp add: tokenize_show_int)
next
  case (JStr s)
  then show ?case by (simp add: tokenize_quote)
next
  case (JArr xs)
  show ?case
  proof (cases "xs = []")
    case True
    then show ?thesis by (simp add: tokenize_punct)
  next
    case False
    have ind': "list_all is_json_ws (ind @ gap)"
      using JArr.prems(2) gap by simp
    have elem: "\<And>x r. x \<in> set xs \<Longrightarrow> delimited r \<Longrightarrow>
        tokenize (serialize gap (ind @ gap) x @ r) = otoks (toks x) (tokenize r)"
      using JArr.IH JArr.prems(1) ind' by (simp add: list_all_iff)
    have "serialize gap ind (JArr xs) @ r
        = CHR ''['' # ((if gap = [] then join '','' (map (serialize gap (ind @ gap)) xs) @ [CHR '']'']
             else [LF] @ ind @ gap @ join ('','' @ [LF] @ ind @ gap) (map (serialize gap (ind @ gap)) xs)
                  @ [LF] @ ind @ [CHR '']'']) @ r)"
      using False by (simp add: Let_def)
    then have "tokenize (serialize gap ind (JArr xs) @ r)
        = otok TLBracket (otoks (join [TComma] (map toks xs)) (tokenize (CHR '']'' # r)))"
      using tokenize_block[where cl = "CHR '']''" and r = r, OF False elem JArr.prems(2) gap]
      by (simp only: tokenize_punct) simp
    then show ?thesis
      by (simp add: tokenize_punct)
  qed
next
  case (JObj kvs)
  show ?case
  proof (cases "kvs = []")
    case True
    then show ?thesis by (simp add: tokenize_punct)
  next
    case False
    let ?f = "\<lambda>(k, v). quote k @ '':'' @ (if gap = [] then [] else '' '') @ serialize gap (ind @ gap) v"
    let ?g = "\<lambda>(k, v). TString k # TColon # toks v"
    have ind': "list_all is_json_ws (ind @ gap)"
      using JObj.prems(2) gap by simp
    have elem: "tokenize (?f p @ r) = otoks (?g p) (tokenize r)"
      if p: "p \<in> set kvs" and d: "delimited r" for p r
    proof -
      obtain k v where kv: "p = (k, v)" by (cases p)
      have wfv: "wf_json v" using JObj.prems(1) p kv by (auto simp: list_all_iff)
      have v: "tokenize (serialize gap (ind @ gap) v @ r) = otoks (toks v) (tokenize r)"
        using JObj.IH[of p v "ind @ gap" r] p kv wfv ind' d by simp
      have "tokenize ((if gap = [] then [] else '' '') @ serialize gap (ind @ gap) v @ r)
          = tokenize (serialize gap (ind @ gap) v @ r)"
        by (rule tokenize_ws) (simp add: is_json_ws_def)
      then show ?thesis
        unfolding kv using v
        by (simp add: tokenize_quote tokenize_punct)
    qed
    have "serialize gap ind (JObj kvs) @ r
        = CHR ''{'' # ((if gap = [] then join '','' (map ?f kvs) @ [CHR ''}'']
             else [LF] @ ind @ gap @ join ('','' @ [LF] @ ind @ gap) (map ?f kvs)
                  @ [LF] @ ind @ [CHR ''}'']) @ r)"
      using False by (simp add: Let_def)
    then have "tokenize (serialize gap ind (JObj kvs) @ r)
        = otok TLBrace (otoks (join [TComma] (map ?g kvs)) (tokenize (CHR ''}'' # r)))"
      using tokenize_block[where cl = "CHR ''}''" and r = r and f = ?f and g = ?g, OF False elem JObj.prems(2) gap]
      by (simp only: tokenize_punct) simp
    then show ?thesis
      by (simp add: tokenize_punct)
  qed
qed

subsection \<open>The machine on the tokens of a value\<close>

text \<open>
  Where a value is expected, the machine reads the tokens of a well-formed
  value and attaches the value to the frame on top of the stack.
\<close>

lemma run_value_token:
  assumes "m = WantValue \<or> m = WantValueOrClose"
  shows "run (TNull # ts) m st = run ts (fst (attach JNull st)) (snd (attach JNull st))"
    and "run (TTrue # ts) m st = run ts (fst (attach (JBool True) st)) (snd (attach (JBool True) st))"
    and "run (TFalse # ts) m st = run ts (fst (attach (JBool False) st)) (snd (attach (JBool False) st))"
    and "run (TNumber n # ts) m st = run ts (fst (attach (JNum n) st)) (snd (attach (JNum n) st))"
    and "run (TString s # ts) m st = run ts (fst (attach (JStr s) st)) (snd (attach (JStr s) st))"
  using assms by (auto simp: case_prod_beta)

lemma run_array_elems:
  assumes "xs \<noteq> []"
    and "\<And>x ts m st. x \<in> set xs \<Longrightarrow> m = WantValue \<or> m = WantValueOrClose \<Longrightarrow>
           run (toks x @ ts) m st = run ts (fst (attach x st)) (snd (attach x st))"
    and "m = WantValue \<or> m = WantValueOrClose"
  shows "run (join [TComma] (map toks xs) @ TRBracket # ts) m (FArr acc # st)
         = run ts (fst (attach (JArr (acc @ xs)) st)) (snd (attach (JArr (acc @ xs)) st))"
  using assms
proof (induction xs arbitrary: acc m rule: list_nonempty_induct)
  case (single x)
  have "run (toks x @ TRBracket # ts) m (FArr acc # st) = run (TRBracket # ts) WantSep (FArr (acc @ [x]) # st)"
    using single.prems(1)[of x] single.prems(2) by simp
  then show ?case by (simp add: case_prod_beta)
next
  case (cons x xs)
  have "run (join [TComma] (map toks (x # xs)) @ TRBracket # ts) m (FArr acc # st)
      = run (toks x @ (TComma # join [TComma] (map toks xs) @ TRBracket # ts)) m (FArr acc # st)"
    using cons.hyps by (simp add: join_Cons)
  also have "\<dots> = run (TComma # join [TComma] (map toks xs) @ TRBracket # ts) WantSep (FArr (acc @ [x]) # st)"
    using cons.prems(1)[of x] cons.prems(2) by simp
  also have "\<dots> = run (join [TComma] (map toks xs) @ TRBracket # ts) WantValue (FArr (acc @ [x]) # st)"
    by simp
  also have "\<dots> = run ts (fst (attach (JArr ((acc @ [x]) @ xs)) st)) (snd (attach (JArr ((acc @ [x]) @ xs)) st))"
    using cons.prems(1) by (intro cons.IH) auto
  finally show ?case by simp
qed

lemma update_fresh: "k \<notin> fst ` set ms \<Longrightarrow> AList.update k v ms = ms @ [(k, v)]"
  by (induction ms) auto

lemma run_object_members:
  assumes "kvs \<noteq> []"
    and "\<And>k v ts m st. (k, v) \<in> set kvs \<Longrightarrow> m = WantValue \<or> m = WantValueOrClose \<Longrightarrow>
           run (toks v @ ts) m st = run ts (fst (attach v st)) (snd (attach v st))"
    and "m = WantKey \<or> m = WantKeyOrClose"
    and "distinct (map fst kvs)" and "fst ` set kvs \<inter> fst ` set acc = {}"
    and "\<forall>(k, v) \<in> set kvs. \<not> index_like k"
  shows "run (join [TComma] (map (\<lambda>(k, v). TString k # TColon # toks v) kvs) @ TRBrace # ts) m (FObj acc k0 # st)
         = run ts (fst (attach (JObj (acc @ kvs)) st)) (snd (attach (JObj (acc @ kvs)) st))"
  using assms
proof (induction kvs arbitrary: acc m k0 rule: list_nonempty_induct)
  case (single p)
  obtain k v where p: "p = (k, v)" by (cases p)
  have k: "\<not> index_like k" "k \<notin> fst ` set acc"
    using single.prems p by auto
  have "run (TString k # TColon # toks v @ TRBrace # ts) m (FObj acc k0 # st)
      = run (toks v @ TRBrace # ts) WantValue (FObj acc k # st)"
    using single.prems(2) k by auto
  also have "\<dots> = run (TRBrace # ts) WantSep (FObj (acc @ [(k, v)]) k # st)"
    using single.prems(1)[of k v] p k
    by (simp add: update_fresh)
  finally show ?case by (simp add: p case_prod_beta)
next
  case (cons p kvs)
  obtain k v where p: "p = (k, v)" by (cases p)
  let ?g = "\<lambda>(k, v). TString k # TColon # toks v"
  have k: "\<not> index_like k" "k \<notin> fst ` set acc" "k \<notin> fst ` set kvs"
    using cons.prems p by auto
  have "run (join [TComma] (map ?g (p # kvs)) @ TRBrace # ts) m (FObj acc k0 # st)
      = run (TString k # TColon # toks v @ (TComma # join [TComma] (map ?g kvs) @ TRBrace # ts)) m (FObj acc k0 # st)"
    using cons.hyps by (simp add: join_Cons p)
  also have "\<dots> = run (toks v @ (TComma # join [TComma] (map ?g kvs) @ TRBrace # ts)) WantValue (FObj acc k # st)"
    using cons.prems(2) k by auto
  also have "\<dots> = run (TComma # join [TComma] (map ?g kvs) @ TRBrace # ts) WantSep (FObj (acc @ [(k, v)]) k # st)"
    using cons.prems(1)[of k v] p k
    by (simp add: update_fresh)
  also have "\<dots> = run (join [TComma] (map ?g kvs) @ TRBrace # ts) WantKey (FObj (acc @ [(k, v)]) k # st)"
    by simp
  also have "\<dots> = run ts (fst (attach (JObj ((acc @ [(k, v)]) @ kvs)) st))
                       (snd (attach (JObj ((acc @ [(k, v)]) @ kvs)) st))"
  proof (rule cons.IH)
    show "run (toks v @ ts) m st = run ts (fst (attach v st)) (snd (attach v st))"
      if "(k, v) \<in> set kvs" "m = WantValue \<or> m = WantValueOrClose" for k v ts m st
      using cons.prems(1)[of k v] that by simp
    show "WantKey = WantKey \<or> WantKey = WantKeyOrClose" by simp
    show "distinct (map fst kvs)" using cons.prems(3) by simp
    show "fst ` set kvs \<inter> fst ` set (acc @ [(k, v)]) = {}"
      using cons.prems(3,4) p by auto
    show "\<forall>(k, v) \<in> set kvs. \<not> index_like k" using cons.prems(5) by simp
  qed
  finally show ?case by (simp add: p)
qed

lemma run_toks:
  "wf_json v \<Longrightarrow> m = WantValue \<or> m = WantValueOrClose \<Longrightarrow>
   run (toks v @ ts) m st = run ts (fst (attach v st)) (snd (attach v st))"
proof (induction v arbitrary: ts m st)
  case JNull
  then show ?case using run_value_token(1)[of m ts st] by simp
next
  case (JBool b)
  then show ?case
    using run_value_token(2)[of m ts st] run_value_token(3)[of m ts st] by (cases b) simp_all
next
  case (JNum n)
  then show ?case using run_value_token(4)[of m n ts st] by simp
next
  case (JStr s)
  then show ?case using run_value_token(5)[of m s ts st] by simp
next
  case (JArr xs)
  show ?case
  proof (cases "xs = []")
    case True
    then show ?thesis using JArr.prems(2) by (auto simp: case_prod_beta)
  next
    case False
    have elems: "\<And>x ts m st. x \<in> set xs \<Longrightarrow> m = WantValue \<or> m = WantValueOrClose \<Longrightarrow>
           run (toks x @ ts) m st = run ts (fst (attach x st)) (snd (attach x st))"
      using JArr.IH JArr.prems(1) by (simp add: list_all_iff)
    have "run (toks (JArr xs) @ ts) m st
        = run (join [TComma] (map toks xs) @ TRBracket # ts) WantValueOrClose (FArr [] # st)"
      using JArr.prems(2) by auto
    also have "\<dots> = run ts (fst (attach (JArr ([] @ xs)) st)) (snd (attach (JArr ([] @ xs)) st))"
      by (rule run_array_elems[OF False elems]) simp_all
    finally show ?thesis by simp
  qed
next
  case (JObj kvs)
  show ?case
  proof (cases "kvs = []")
    case True
    then show ?thesis using JObj.prems(2) by (auto simp: case_prod_beta)
  next
    case False
    have members: "\<And>k v ts m st. (k, v) \<in> set kvs \<Longrightarrow> m = WantValue \<or> m = WantValueOrClose \<Longrightarrow>
           run (toks v @ ts) m st = run ts (fst (attach v st)) (snd (attach v st))"
    proof -
      fix k v ts m st
      assume kv: "(k, v) \<in> set kvs" and m: "m = WantValue \<or> m = WantValueOrClose"
      have "wf_json v" using JObj.prems(1) kv by (auto simp: list_all_iff)
      then show "run (toks v @ ts) m st = run ts (fst (attach v st)) (snd (attach v st))"
        using JObj.IH[of "(k, v)" v] kv m by simp
    qed
    have "run (toks (JObj kvs) @ ts) m st
        = run (join [TComma] (map (\<lambda>(k, v). TString k # TColon # toks v) kvs) @ TRBrace # ts)
              WantKeyOrClose (FObj [] [] # st)"
      using JObj.prems(2) by auto
    also have "\<dots> = run ts (fst (attach (JObj ([] @ kvs)) st)) (snd (attach (JObj ([] @ kvs)) st))"
    proof (rule run_object_members[OF False members])
      show "WantKeyOrClose = WantKey \<or> WantKeyOrClose = WantKeyOrClose" by simp
      show "distinct (map fst kvs)" using JObj.prems(1) by simp
      show "fst ` set kvs \<inter> fst ` set [] = {}" by simp
      show "\<forall>(k, v) \<in> set kvs. \<not> index_like k"
        using JObj.prems(1) by (auto simp: list_all_iff)
    qed
    finally show ?thesis by simp
  qed
qed

lemma JSON_parse_serialize:
  assumes "wf_json v" and "list_all is_json_ws gap"
  shows "JSON_parse (serialize gap [] v) = Returns v"
proof -
  have "tokenize (serialize gap [] v @ []) = otoks (toks v) (tokenize [])"
    by (rule tokenize_serialize[OF assms(2) assms(1)]) (simp_all add: delimited_def)
  then have t: "tokenize (serialize gap [] v) = Returns (toks v)"
    by (simp add: tokenize.simps)
  have "run (toks v @ []) WantValue [] = run [] (fst (attach v [])) (snd (attach v []))"
    by (rule run_toks[OF assms(1)]) simp
  then have "run (toks v) WantValue [] = Returns v" by simp
  with t show ?thesis by (simp add: JSON_parse_def)
qed

subsection \<open>What the parser returns is well formed\<close>

text \<open>
  The numbers of the tokens are safe integers, and the machine keeps the
  open arrays and objects on its stack well formed.
\<close>

fun tok_ok :: "token \<Rightarrow> bool" where
  "tok_ok (TNumber n) = (\<bar>n\<bar> \<le> MAX_SAFE_INTEGER)"
| "tok_ok _ = True"

lemma otok_Returns: "otok t r = Returns ts \<longleftrightarrow> (\<exists>us. r = Returns us \<and> ts = t # us)"
  by (cases r) auto

lemma lex_number_safe: "lex_number s = Returns (n, r) \<Longrightarrow> \<bar>n\<bar> \<le> MAX_SAFE_INTEGER"
  by (auto simp: lex_number_def Let_def split: if_splits)

lemma lex_token_ok:
  assumes "lex_token c cs = Returns (t, r)"
  shows "tok_ok t"
proof (cases t)
  case (TNumber n)
  then have "lex_number (c # cs) = Returns (n, r)"
    using assms
    by (auto simp: lex_token_def punctuation_def lex_literal_def
             split: option.splits if_splits elim!: omap.elims)
  then show ?thesis using TNumber lex_number_safe by simp
qed simp_all

lemma tokenize_ok: "tokenize s = Returns ts \<Longrightarrow> list_all tok_ok ts"
proof (induction "length s" arbitrary: s ts rule: less_induct)
  case less
  show ?case
  proof (cases s)
    case Nil
    then show ?thesis using less.prems by (simp add: tokenize.simps)
  next
    case (Cons c cs)
    show ?thesis
    proof (cases "is_json_ws c")
      case True
      then have "tokenize cs = Returns ts"
        using less.prems Cons by (simp add: tokenize.simps)
      then show ?thesis using less.hyps[of cs ts] Cons by simp
    next
      case False
      then obtain t r us where l: "lex_token c cs = Returns (t, r)"
        and u: "tokenize r = Returns us" and ts: "ts = t # us"
        using less.prems Cons
        by (auto simp: tokenize.simps otok_Returns split: outcome.splits)
      have "length r < length s"
        using lex_token_length[OF l] Cons by simp
      then have "list_all tok_ok us" using less.hyps[of r us] u by simp
      then show ?thesis using lex_token_ok[OF l] ts by simp
    qed
  qed
qed

fun frame_ok :: "frame \<Rightarrow> bool" where
  "frame_ok (FArr es) = list_all wf_json es"
| "frame_ok (FObj ms k) = (wf_json (JObj ms) \<and> \<not> index_like k)"

fun mode_ok :: "mode \<Rightarrow> bool" where
  "mode_ok (Done v) = wf_json v"
| "mode_ok _ = True"

lemma wf_update:
  assumes "wf_json (JObj ms)" and "\<not> index_like k" and "wf_json v"
  shows "wf_json (JObj (AList.update k v ms))"
proof -
  have "set (AList.update k v ms) \<subseteq> insert (k, v) (set ms)"
    by (induction ms) auto
  then show ?thesis
    using assms by (auto simp: list_all_iff distinct_update)
qed

lemma attach_ok:
  assumes "attach v st = (m', st')" and "wf_json v" and "list_all frame_ok st"
  shows "mode_ok m' \<and> list_all frame_ok st'"
proof (cases st)
  case Nil
  then show ?thesis using assms by auto
next
  case (Cons f fs)
  then show ?thesis
    using assms wf_update by (cases f) auto
qed

lemma value_step_ok:
  assumes "value_step t st = Returns (m', st')" and "tok_ok t" and "list_all frame_ok st"
  shows "mode_ok m' \<and> list_all frame_ok st'"
proof (cases t)
  case TLBracket
  then show ?thesis using assms by auto
next
  case TLBrace
  then show ?thesis using assms by (auto simp: index_like_def)
next
  case (TString s)
  then show ?thesis using assms attach_ok[of "JStr s" st m' st'] by simp
next
  case (TNumber n)
  then show ?thesis using assms attach_ok[of "JNum n" st m' st'] by simp
next
  case TTrue
  then show ?thesis using assms attach_ok[of "JBool True" st m' st'] by simp
next
  case TFalse
  then show ?thesis using assms attach_ok[of "JBool False" st m' st'] by simp
next
  case TNull
  then show ?thesis using assms attach_ok[of JNull st m' st'] by simp
qed (use assms in auto)

lemma close_step_ok:
  assumes "close_step t st = Returns (m', st')" and "list_all frame_ok st"
  shows "mode_ok m' \<and> list_all frame_ok st'"
  using assms
proof (cases "(t, st)" rule: close_step.cases)
  case (1 es fs)
  then show ?thesis using assms attach_ok[of "JArr es" fs m' st'] by simp
next
  case (2 ms k fs)
  then show ?thesis using assms attach_ok[of "JObj ms" fs m' st'] by simp
qed auto

lemma key_step_ok:
  assumes "key_step t st = Returns (m', st')" and "list_all frame_ok st"
  shows "mode_ok m' \<and> list_all frame_ok st'"
  using assms by (cases "(t, st)" rule: key_step.cases) (auto split: if_splits)

lemma sep_step_ok:
  assumes "sep_step t st = Returns (m', st')" and "list_all frame_ok st"
  shows "mode_ok m' \<and> list_all frame_ok st'"
  using assms close_step_ok[of t st m' st']
  by (cases "(t, st)" rule: sep_step.cases) auto

lemma step_ok:
  assumes "step t m st = Returns (m', st')" and "tok_ok t" and "list_all frame_ok st"
  shows "mode_ok m' \<and> list_all frame_ok st'"
  using assms value_step_ok[of t st m' st'] close_step_ok[of t st m' st']
    key_step_ok[of t st m' st'] sep_step_ok[of t st m' st']
  by (cases m) (auto split: if_splits)

lemma run_ok:
  "run ts m st = Returns v \<Longrightarrow> list_all tok_ok ts \<Longrightarrow> mode_ok m \<Longrightarrow> list_all frame_ok st \<Longrightarrow> wf_json v"
proof (induction ts arbitrary: m st)
  case Nil
  then show ?case by (cases m) auto
next
  case (Cons t ts)
  from Cons.prems(1) obtain m' st' where st: "step t m st = Returns (m', st')"
    and r: "run ts m' st' = Returns v"
    by (auto split: outcome.splits)
  have "mode_ok m' \<and> list_all frame_ok st'"
    using step_ok[OF st] Cons.prems by simp
  then show ?case
    using Cons.IH[OF r] Cons.prems(2) by simp
qed

lemma JSON_parse_wf: "JSON_parse text = Returns v \<Longrightarrow> wf_json v"
proof -
  assume "JSON_parse text = Returns v"
  then obtain ts where t: "tokenize text = Returns ts" and r: "run ts WantValue [] = Returns v"
    by (cases "tokenize text") (auto simp: JSON_parse_def)
  from run_ok[OF r tokenize_ok[OF t]] show "wf_json v" by simp
qed

section \<open>Facts about the handlers\<close>

lemma navigate_cards: "cards (navigate d s) = cards s"
  by (simp add: navigate_def Let_def)

lemma js_rem_nonneg: "0 \<le> x \<Longrightarrow> 0 < n \<Longrightarrow> js_rem (Num x) (Num n) = Num (x mod n)"
  by (cases "x = 0") (simp_all add: sgn_if)

lemma to_number_safe: "\<bar>i\<bar> \<le> MAX_SAFE_INTEGER \<Longrightarrow> to_number i = Num i"
  by (simp add: to_number_def)

text \<open>
  The cursor after \<open>navigate\<close>, when the direction and the two sums are safe
  integers (the additions are exact) and the second sum is not negative.
\<close>

lemma navigate_index:
  assumes "cards s \<noteq> []" and "currentIndex s = Num c"
    and "0 \<le> c + d + int (length (cards s))"
    and "\<bar>d\<bar> \<le> MAX_SAFE_INTEGER" and "\<bar>c + d\<bar> \<le> MAX_SAFE_INTEGER"
    and "c + d + int (length (cards s)) \<le> MAX_SAFE_INTEGER"
  shows "currentIndex (navigate d s)
           = Num ((c + d + int (length (cards s))) mod int (length (cards s)))"
proof -
  have n: "0 < int (length (cards s))" using assms(1) by simp
  have d: "to_number d = Num d" using assms(4) by (rule to_number_safe)
  have s1: "js_add (Num c) (Num d) = Num (c + d)"
    using to_number_safe[OF assms(5)] by simp
  have "\<bar>c + d + int (length (cards s))\<bar> \<le> MAX_SAFE_INTEGER"
    using assms(3,6) by simp
  then have s2: "js_add (Num (c + d)) (Num (int (length (cards s))))
                   = Num (c + d + int (length (cards s)))"
    using to_number_safe[of "c + d + int (length (cards s))"] by simp
  show ?thesis
    using assms(2) d s1 s2 js_rem_nonneg[OF assms(3) n] by (simp add: navigate_def Let_def)
qed

lemma shuffle_loop_length: "length (shuffle_loop rnd k i xs) = length xs"
  by (induction i arbitrary: k xs) (simp_all add: Let_def)

lemma shuffle_loop_mset:
  assumes "\<forall>k. 0 \<le> rnd k \<and> rnd k < 1" and "i < length xs"
  shows "mset (shuffle_loop rnd k i xs) = mset xs"
  using assms(2)
proof (induction i arbitrary: k xs)
  case 0
  then show ?case by simp
next
  case (Suc i)
  let ?j = "nat \<lfloor>rnd k * of_nat (Suc i + 1)\<rfloor>"
  let ?ys = "xs[Suc i := xs ! ?j, ?j := xs ! Suc i]"
  have r: "0 \<le> rnd k" "rnd k < 1" using assms(1) by auto
  have "rnd k * of_nat (Suc i + 1) < of_nat (Suc i + 1)"
    using r by (simp add: mult_less_cancel_right1)
  then have "\<lfloor>rnd k * of_nat (Suc i + 1)\<rfloor> < int (Suc i + 1)"
    by (simp add: floor_less_iff)
  then have "?j \<le> Suc i" by linarith
  then have jl: "?j < length xs" using Suc.prems by simp
  have swap: "mset ?ys = mset xs"
    using jl Suc.prems by (simp add: mset_swap)
  have "mset (shuffle_loop rnd (Suc k) i ?ys) = mset ?ys"
    using Suc.IH[of ?ys "Suc k"] Suc.prems by simp
  with swap show ?case by (simp add: Let_def)
qed

lemma splice1_in_range:
  assumes "0 \<le> c" and "c < int (length xs)"
  shows "splice1 (Num c) xs = take (nat c) xs @ drop (Suc (nat c)) xs"
proof -
  have "splice_start (Num c) (length xs) = nat c"
    using assms by simp
  moreover have "min 1 (length xs - nat c) = 1"
    using assms by linarith
  ultimately show ?thesis
    by (simp add: splice1_def Let_def)
qed

lemma serialize_nonempty: "serialize gap ind v \<noteq> []"
  by (cases v) (auto simp: show_int_def show_nat_nonempty quote_def Let_def)

lemma JSON_stringify_nonempty: "JSON_stringify n v \<noteq> []"
  by (simp add: JSON_stringify_def serialize_nonempty)

lemma JSON_parse_stringify: "wf_json v \<Longrightarrow> JSON_parse (JSON_stringify n v) = Returns v"
  unfolding JSON_stringify_def
  by (rule JSON_parse_serialize) (simp_all add: list_all_iff is_json_ws_def)

lemma wf_card: "wf_json (make_card f b)"
  by (simp add: make_card_def index_like_def is_digit_def)

lemma wf_defaultCards: "list_all wf_json defaultCards"
  by (simp add: defaultCards_def wf_card)

lemma valid_card_card: "valid_card (make_card f b) = Returns (f \<noteq> [] \<and> b \<noteq> [])"
  by (simp add: valid_card_def make_card_def truthy_opt_def)

lemma filter_cards_subset:
  "filter_cards xs = Returns ys \<Longrightarrow> set ys \<subseteq> set xs"
proof (induction xs arbitrary: ys)
  case Nil
  then show ?case by simp
next
  case (Cons x xs)
  from Cons.prems obtain keep r where "filter_cards xs = Returns r" "ys = (if keep then x # r else r)"
    by (cases "valid_card x"; cases "filter_cards xs") auto
  then show ?case using Cons.IH[of r] by auto
qed

lemma filter_cards_all_valid:
  "list_all (\<lambda>c. valid_card c = Returns True) xs \<Longrightarrow> filter_cards xs = Returns xs"
  by (induction xs) auto

lemma onload_cases:
  assumes "onload text s = Some (n, s')"
  shows "s' = s \<and> n \<noteq> Imported k
       \<or> (\<exists>xs ys. JSON_parse text = Returns (JArr xs) \<and> filter_cards xs = Returns ys \<and> ys \<noteq> []
             \<and> n = Imported (length ys)
             \<and> s' = s\<lparr>cards := ys, currentIndex := Num 0, isFlipped := False\<rparr>)"
  using assms
  by (auto simp: onload_def split: outcome.splits json.splits if_splits)

lemma splice1_length: "length xs - 1 \<le> length (splice1 start xs)"
  by (simp add: splice1_def Let_def)

lemma splice1_subset: "set (splice1 start xs) \<subseteq> set xs"
proof -
  have "set (take a xs @ drop b xs) \<subseteq> set xs" for a b
    using set_take_subset[of a xs] set_drop_subset[of b xs] by simp
  then show ?thesis
    by (simp only: splice1_def Let_def)
qed

lemma deleteCard_nonempty:
  assumes "cards (s::state) \<noteq> []"
  shows "cards (deleteCard s) \<noteq> []"
proof (cases "length (cards s) \<le> 1")
  case True
  then show ?thesis using assms by (simp add: deleteCard_def)
next
  case False
  then have "1 \<le> length (splice1 (currentIndex s) (cards s))"
    using splice1_length[of "cards s" "currentIndex s"] by linarith
  then show ?thesis using False by (auto simp: deleteCard_def Let_def)
qed

lemma deleteCard_subset: "set (cards (deleteCard s)) \<subseteq> set (cards s)"
  using splice1_subset[of "currentIndex s" "cards s"] by (simp add: deleteCard_def Let_def)

lemma handleKeyDown_cards: "cards (handleKeyDown key s) = cards s"
  by (simp add: handleKeyDown_def navigate_cards)

lemma shuffleCards_length: "length (cards (shuffleCards rnd s)) = length (cards s)"
  by (simp add: shuffleCards_def shuffle_loop_length)

lemma shuffleCards_set:
  assumes "\<forall>k. 0 \<le> rnd k \<and> rnd k < 1"
  shows "set (cards (shuffleCards rnd s)) = set (cards s)"
proof (cases "cards s")
  case Nil
  then show ?thesis by (simp add: shuffleCards_def)
next
  case (Cons c cs)
  then have "length (cards s) - 1 < length (cards s)" by simp
  from shuffle_loop_mset[OF assms this, of 0]
  have "set (shuffle_loop rnd 0 (length (cards s) - 1) (cards s)) = set (cards s)"
    by (rule mset_eq_setD)
  then show ?thesis by (simp add: shuffleCards_def)
qed

lemma importCards_cases:
  assumes "importCards chosen s = Some (ns, s')"
  shows "s' = s \<and> (\<forall>k. Imported k \<notin> set ns)
       \<or> (\<exists>text xs ys. chosen = Some text \<and> JSON_parse text = Returns (JArr xs)
             \<and> filter_cards xs = Returns ys \<and> ys \<noteq> [] \<and> ns = [Imported (length ys)]
             \<and> s' = s\<lparr>cards := ys, currentIndex := Num 0, isFlipped := False\<rparr>)"
proof (cases chosen)
  case None
  then show ?thesis using assms by (simp add: importCards_def)
next
  case (Some body)
  then obtain n where o: "onload body s = Some (n, s')" and ns: "ns = [n]"
    using assms by (auto simp: importCards_def)
  show ?thesis
  proof (cases "\<exists>k. n = Imported k")
    case True
    then obtain k where "n = Imported k" by blast
    with onload_cases[OF o, of k] Some ns show ?thesis by auto
  next
    case False
    then have "s' = s"
      using o by (auto simp: onload_def split: outcome.splits json.splits if_splits)
    with False ns show ?thesis by auto
  qed
qed

lemma importCards_nonempty:
  "importCards chosen s = Some (ns, s') \<Longrightarrow> cards s \<noteq> [] \<Longrightarrow> cards s' \<noteq> []"
  using importCards_cases[of chosen s ns s'] by auto

lemma importCards_wf:
  assumes "importCards chosen s = Some (ns, s')" and "list_all wf_json (cards s)"
  shows "list_all wf_json (cards s')"
  using importCards_cases[OF assms(1)]
proof (elim disjE exE conjE)
  assume "s' = s"
  then show ?thesis using assms(2) by simp
next
  fix body xs ys
  assume p: "JSON_parse body = Returns (JArr xs)" and f: "filter_cards xs = Returns ys"
    and s': "s' = s\<lparr>cards := ys, currentIndex := Num 0, isFlipped := False\<rparr>"
  have "list_all wf_json xs" using JSON_parse_wf[OF p] by simp
  then have "list_all wf_json ys"
    using filter_cards_subset[OF f] by (auto simp: list_all_iff)
  then show ?thesis using s' by simp
qed

lemma handle_nonempty:
  assumes "handle e s = Some s'" and "cards s \<noteq> []"
  shows "cards s' \<noteq> []"
proof (cases e)
  case (KeyDown key)
  then show ?thesis using assms by (auto simp: handleKeyDown_cards)
next
  case ClickDeleteCard
  then show ?thesis using assms deleteCard_nonempty[of s] by auto
next
  case (ClickResetAll confirmed)
  then show ?thesis using assms by (auto simp: resetCards_def defaultCards_def split: if_splits)
next
  case (ClickShuffle rnd)
  then show ?thesis using assms shuffleCards_length[of rnd s] by auto
next
  case (ChooseFile chosen)
  then obtain ns where "importCards chosen s = Some (ns, s')"
    using assms(1) by auto
  then show ?thesis using importCards_nonempty assms(2) by blast
qed (use assms in \<open>auto simp: navigate_cards exportCards_def addCard_def split: if_splits\<close>)

lemma handle_wf:
  assumes "handle e s = Some s'" and "list_all wf_json (cards s)" and "random_ok e"
  shows "list_all wf_json (cards s')"
proof (cases e)
  case (KeyDown key)
  then show ?thesis using assms by (auto simp: handleKeyDown_cards)
next
  case ClickDeleteCard
  then show ?thesis using assms deleteCard_subset[of s] by (auto simp: list_all_iff)
next
  case (ClickResetAll confirmed)
  then show ?thesis using assms by (auto simp: resetCards_def wf_defaultCards split: if_splits)
next
  case (ClickShuffle rnd)
  then have "\<forall>k. 0 \<le> rnd k \<and> rnd k < 1" using assms(3) by (simp add: random_ok_def)
  from shuffleCards_set[OF this, of s] ClickShuffle show ?thesis
    using assms by (auto simp: list_all_iff)
next
  case (ChooseFile chosen)
  then obtain ns where "importCards chosen s = Some (ns, s')"
    using assms(1) by auto
  then show ?thesis using importCards_wf assms(2) by blast
next
  case ClickSave
  then show ?thesis using assms by (auto simp: addCard_def wf_card split: if_splits)
qed (use assms in \<open>auto simp: navigate_cards exportCards_def\<close>)

text \<open>
  What holds of the page and its storage after a start without a stored
  deck: the deck is not empty, its cards are well formed, and the storage
  holds the text of the deck.
\<close>

definition deck_invariant :: "state \<Rightarrow> storage \<Rightarrow> bool" where
  "deck_invariant s st \<longleftrightarrow>
     cards s \<noteq> [] \<and> list_all wf_json (cards s)
     \<and> st ''flashcards'' = Some (JSON_stringify 0 (JArr (cards s)))"

lemma persist_flashcards: "persist s st ''flashcards'' = Some (JSON_stringify 0 (JArr (cards s)))"
  by (simp add: persist_def)

lemma init_without_deck:
  assumes "st ''flashcards'' = None \<or> st ''flashcards'' = Some []" and "init st = Returns s"
  shows "cards s = defaultCards"
proof -
  have "init_cards st = Returns (JArr defaultCards)"
    using assms(1) by (auto simp: init_cards_def)
  then show ?thesis
    using assms(2) by (cases "init_currentIndex st") (auto simp: init_def initial_state_def)
qed

lemma init_persisted:
  assumes "st ''flashcards'' = Some (JSON_stringify 0 (JArr cs))" and "list_all wf_json cs"
    and "init st = Returns s"
  shows "cards s = cs"
proof -
  have "init_cards st = Returns (JArr cs)"
    using assms(1,2) by (simp add: init_cards_def JSON_stringify_nonempty JSON_parse_stringify)
  then show ?thesis
    using assms(3) by (cases "init_currentIndex st") (auto simp: init_def initial_state_def)
qed

lemma reachable_invariant:
  assumes "st0 ''flashcards'' = None \<or> st0 ''flashcards'' = Some []"
  shows "reachable st0 s st \<Longrightarrow> deck_invariant s st"
proof (induction rule: reachable.induct)
  case (start s)
  with init_without_deck[where st = st0, OF assms] have "cards s = defaultCards" by simp
  then show ?case
    by (simp add: deck_invariant_def persist_flashcards wf_defaultCards) (simp add: defaultCards_def)
next
  case (event s st e s')
  then show ?case
    using handle_nonempty[of e s s'] handle_wf[of e s s']
    by (simp add: deck_invariant_def persist_flashcards)
next
  case (reload s st s')
  then have "cards s' = cards s"
    using init_persisted[of st "cards s" s'] by (simp add: deck_invariant_def)
  with reload show ?case
    by (simp add: deck_invariant_def persist_flashcards)
qed

text \<open>
  The import of the text that \<open>exportCards\<close> shows, for a non-empty deck of
  values of the model whose cards all pass the filter of the import.
\<close>

lemma importCards_exportText:
  assumes "cards s \<noteq> []" and "list_all wf_json (cards s)"
    and "list_all (\<lambda>c. valid_card c = Returns True) (cards s)"
  shows "importCards (Some (exportText (exportCards s))) s2
           = Some ([Imported (length (cards s))],
                   s2\<lparr>cards := cards s, currentIndex := Num 0, isFlipped := False\<rparr>)"
proof -
  have "wf_json (JArr (cards s))" using assms(2) by simp
  then have p: "JSON_parse (exportText (exportCards s)) = Returns (JArr (cards s))"
    by (simp add: exportCards_def JSON_parse_stringify)
  have f: "filter_cards (cards s) = Returns (cards s)"
    using assms(3) by (rule filter_cards_all_valid)
  show ?thesis
    using assms(1) p f by (simp add: importCards_def onload_def)
qed

text \<open>
  Beyond the safe integers the additions of \<open>navigate\<close> round: on two cards
  with the cursor at 1, the direction \<open>2 ^ 53\<close> gives the sum \<open>2 ^ 53\<close>, then
  \<open>2 ^ 53 + 2\<close>, and the cursor 0.
\<close>

lemma navigate_rounds:
  "currentIndex (navigate (2 ^ 53) (initial_state [make_card ''a'' ''b'', make_card ''c'' ''d''] (Num 1)))
     = Num 0"
proof -
  have b: "bit_length 9007199254740993 = 54" "bit_length 9007199254740994 = 54"
    by (simp_all add: bit_length.simps)
  have "to_number (2 ^ 53) = Num (2 ^ 53)"
    by (simp add: to_number_def MAX_SAFE_INTEGER_def round53_def bit_length.simps)
  moreover have "js_add (Num 1) (Num (2 ^ 53)) = Num (2 ^ 53)"
    using b by (simp add: to_number_def MAX_SAFE_INTEGER_def round53_def)
  moreover have "js_add (Num (2 ^ 53)) (Num 2) = Num (2 ^ 53 + 2)"
    using b by (simp add: to_number_def MAX_SAFE_INTEGER_def round53_def)
  ultimately show ?thesis
    by (simp add: navigate_def initial_state_def)
qed

section \<open>Properties of the specification\<close>

text \<open>Evaluation of the tokenizer and the parser on a given text.\<close>

lemmas json_eval =
  JSON_parse_def tokenize.simps lex_token_def punctuation_def lex_literal_def
  is_json_ws_def is_digit_def dquote_def backslash_def lex_number_def digits_val_def
  digit_val_def MAX_SAFE_INTEGER_def index_like_def unescape_def

lemma parse_examples:
  \<open>JSON_parse ''not json'' = Throws\<close>
  \<open>JSON_parse ''[]'' = Returns (JArr [])\<close>
  \<open>JSON_parse ''[{"front":"a"}]'' = Returns (JArr [JObj [(''front'', JStr ''a'')]])\<close>
  \<open>JSON_parse ''[{"front":"a","back":"b"},{"front":""}]''
     = Returns (JArr [make_card ''a'' ''b'', JObj [(''front'', JStr [])]])\<close>
  \<open>JSON_parse ''[null]'' = Returns (JArr [JNull])\<close>
  \<open>JSON_parse ''[{"front":"a","back":"b"}]'' = Returns (JArr [make_card ''a'' ''b''])\<close>
  \<open>JSON_parse ''[{"front":"","back":"x"},{"front":"a","back":"b"}]''
     = Returns (JArr [make_card [] ''x'', make_card ''a'' ''b''])\<close>
  \<open>JSON_parse ''{"front":"a","back":"b"}'' = Returns (make_card ''a'' ''b'')\<close>
  by (simp_all add: json_eval make_card_def)

subsection \<open>Flip state\<close>

text \<open>
  C1 (as amended). After \<open>navigate\<close>, after a \<open>deleteCard\<close> that removes a card
  (a deck of more than one card), after a confirmed \<open>resetCards\<close> and after
  an \<open>importCards\<close> that replaces the deck, the flip state is false.
  \<open>addCard\<close> leaves the flip state as it was: the card on display does not
  change.
\<close>

theorem flip_cleared:
  "isFlipped (navigate d s) = False
   \<and> (1 < length (cards s) \<longrightarrow> isFlipped (deleteCard s) = False)
   \<and> isFlipped (resetCards True s) = False
   \<and> (importCards chosen s = Some ([Imported n], s') \<longrightarrow> isFlipped s' = False)
   \<and> isFlipped (addCard s) = isFlipped s"
proof (intro conjI impI)
  assume "importCards chosen s = Some ([Imported n], s')"
  from importCards_cases[OF this] show "isFlipped s' = False" by auto
qed (simp_all add: navigate_def deleteCard_def resetCards_def addCard_def Let_def)

theorem flip_cleared_witness:
  \<open>isFlipped (navigate 1 ((initial_state defaultCards (Num 0))\<lparr>isFlipped := True\<rparr>)) = False
   \<and> isFlipped (deleteCard ((initial_state defaultCards (Num 0))\<lparr>isFlipped := True\<rparr>)) = False
   \<and> isFlipped (resetCards True ((initial_state defaultCards (Num 0))\<lparr>isFlipped := True\<rparr>)) = False
   \<and> importCards (Some ''[{"front":"a","back":"b"}]'')
         ((initial_state defaultCards (Num 0))\<lparr>isFlipped := True\<rparr>)
       = Some ([Imported 1], initial_state [make_card ''a'' ''b''] (Num 0))
   \<and> isFlipped (addCard ((initial_state defaultCards (Num 0))
         \<lparr>isFlipped := True, newCardFront := ''q'', newCardBack := ''a''\<rparr>)) = True\<close>
proof -
  let ?s = "(initial_state defaultCards (Num 0))\<lparr>isFlipped := True\<rparr>"
  have l: "1 < length (cards ?s)" by (simp add: initial_state_def defaultCards_def)
  have i: \<open>importCards (Some ''[{"front":"a","back":"b"}]'') ?s
       = Some ([Imported 1], initial_state [make_card ''a'' ''b''] (Num 0))\<close>
    by (simp add: importCards_def onload_def parse_examples valid_card_card initial_state_def)
  show ?thesis
    using flip_cleared[where d = 1 and s = ?s and n = 1
        and chosen = \<open>Some ''[{"front":"a","back":"b"}]''\<close>
        and s' = "initial_state [make_card ''a'' ''b''] (Num 0)"] l i
      flip_cleared[of 1 "?s\<lparr>newCardFront := ''q'', newCardBack := ''a''\<rparr>"]
    by (simp add: initial_state_def)
qed

text \<open>
  C1 as stated fails: from a fresh start, flipping the first card, opening
  the form and saving a new card leaves the flip state true, and so does
  flipping the card and shuffling.
\<close>

theorem flip_state_counterexample:
  "init Map.empty = Returns (initial_state defaultCards (Num 0))
   \<and> map_option isFlipped
       (run_events [KeyDown '' '', ClickAddCard, ChangeFront ''q'', ChangeBack ''a'', ClickSave]
          (initial_state defaultCards (Num 0))) = Some True
   \<and> map_option (\<lambda>s. length (cards s))
       (run_events [KeyDown '' '', ClickAddCard, ChangeFront ''q'', ChangeBack ''a'', ClickSave]
          (initial_state defaultCards (Num 0))) = Some 4
   \<and> map_option isFlipped
       (run_events [KeyDown '' '', ClickShuffle (\<lambda>k. 1 / 2)] (initial_state defaultCards (Num 0)))
       = Some True"
  by (simp add: init_def init_cards_def init_currentIndex_def initial_state_def card_view_def
        handleKeyDown_def addCard_def shuffleCards_def js_trim_def is_js_space_def defaultCards_def)

subsection \<open>The deck is never empty\<close>

text \<open>
  C2 (as amended). When the storage holds no deck (the entry is missing or
  empty), the page starts with the three default cards; every state that
  the page can reach from there, by any events and reloads (which read back
  the deck the page stored), has a non-empty deck; every handler takes a
  non-empty deck to a non-empty deck; and \<open>deleteCard\<close> changes nothing on
  a deck of one card.
\<close>

theorem deck_never_empty:
  assumes "st0 ''flashcards'' = None \<or> st0 ''flashcards'' = Some []"
  shows "(\<forall>s. init st0 = Returns s \<longrightarrow> cards s = defaultCards \<and> length (cards s) = 3)
       \<and> (\<forall>s st. reachable st0 s st \<longrightarrow> cards s \<noteq> [])
       \<and> (\<forall>e s s'. cards s \<noteq> [] \<and> handle e s = Some s' \<longrightarrow> cards s' \<noteq> [])
       \<and> (\<forall>s. length (cards s) = 1 \<longrightarrow> deleteCard s = s)"
proof (intro conjI allI impI)
  fix s assume "init st0 = Returns s"
  then show "cards s = defaultCards" by (rule init_without_deck[where st = st0, OF assms])
  then show "length (cards s) = 3" by (simp add: defaultCards_def)
next
  fix s st assume "reachable st0 s st"
  then show "cards s \<noteq> []"
    using reachable_invariant[where ?st0.0 = st0, OF assms] by (simp add: deck_invariant_def)
next
  fix e and s s' :: state assume "cards s \<noteq> [] \<and> handle e s = Some s'"
  then show "cards s' \<noteq> []" using handle_nonempty by blast
next
  fix s :: state assume "length (cards s) = 1"
  then show "deleteCard s = s" by (simp add: deleteCard_def)
qed

theorem deck_never_empty_witness:
  "init Map.empty = Returns (initial_state defaultCards (Num 0))
   \<and> reachable Map.empty (deleteCard (initial_state defaultCards (Num 0)))
         (persist (deleteCard (initial_state defaultCards (Num 0)))
            (persist (initial_state defaultCards (Num 0)) Map.empty))
   \<and> length (cards (deleteCard (initial_state defaultCards (Num 0)))) = 2
   \<and> cards (deleteCard (initial_state defaultCards (Num 0))) \<noteq> []
   \<and> deleteCard (initial_state [make_card ''a'' ''b''] (Num 0)) = initial_state [make_card ''a'' ''b''] (Num 0)"
proof -
  let ?s0 = "initial_state defaultCards (Num 0)"
  have i: "init Map.empty = Returns ?s0"
    by (simp add: init_def init_cards_def init_currentIndex_def)
  have l: "length (cards ?s0) = 3"
    by (simp add: initial_state_def defaultCards_def)
  have r0: "reachable Map.empty ?s0 (persist ?s0 Map.empty)"
    using i by (rule reachable.start)
  have r1: "reachable Map.empty (deleteCard ?s0) (persist (deleteCard ?s0) (persist ?s0 Map.empty))"
    using r0
  proof (rule reachable.event)
    show "enabled ClickDeleteCard ?s0"
      using l by (simp add: card_view_def) (simp add: initial_state_def)
    show "random_ok ClickDeleteCard" by (simp add: random_ok_def)
    show "handle ClickDeleteCard ?s0 = Some (deleteCard ?s0)" by simp
  qed
  have d: "length (cards (deleteCard ?s0)) = 2"
    by (simp add: deleteCard_def initial_state_def defaultCards_def splice1_def Let_def)
  have e: "Map.empty ''flashcards'' = None \<or> Map.empty ''flashcards'' = Some []"
    by simp
  have one: "length (cards (initial_state [make_card ''a'' ''b''] (Num 0))) = 1"
    by (simp add: initial_state_def)
  show ?thesis
    using deck_never_empty[where ?st0.0 = Map.empty, OF e] i r1 d one by blast
qed

text \<open>
  C2 as stated, for every initialization, fails: a stored deck is loaded as
  it is, and the stored text \<^verbatim>\<open>[]\<close> starts the page with an empty deck
  (for which the page renders no card and no button).
\<close>

theorem deck_never_empty_counterexample:
  "init (Map.empty(''flashcards'' \<mapsto> ''[]'')) = Returns (initial_state [] (Num 0))
   \<and> cards (initial_state [] (Num 0)) = []
   \<and> card_view (initial_state [] (Num 0)) = False"
  by (simp add: init_def init_cards_def init_currentIndex_def parse_examples)
     (simp add: initial_state_def card_view_def)

subsection \<open>Navigation\<close>

text \<open>
  C3 (as amended). For a non-empty deck (of fewer than \<open>2 ^ 32\<close> cards, as
  every array), a cursor \<open>c\<close> in range and a direction \<open>d\<close> with
  \<open>0 \<le> c + d + length \<le> 2 ^ 53 - 1\<close> (in particular \<open>d = 1\<close> and \<open>d = -1\<close>,
  the only directions the program uses), \<open>navigate\<close> sets the cursor to
  \<open>(c + d + length) mod length\<close>, which lies in \<open>[0, length - 1]\<close>, and clears
  the flip state; navigating with \<open>+1\<close> and then with \<open>-1\<close> returns the cursor
  to \<open>c\<close>.
\<close>

theorem navigate_wraps:
  assumes "cards s \<noteq> []" and "int (length (cards s)) < 2 ^ 32"
    and "currentIndex s = Num c" and "0 \<le> c" and "c < int (length (cards s))"
    and "0 \<le> c + d + int (length (cards s))"
    and "c + d + int (length (cards s)) \<le> MAX_SAFE_INTEGER"
  shows "currentIndex (navigate d s)
           = Num ((c + d + int (length (cards s))) mod int (length (cards s)))
       \<and> 0 \<le> (c + d + int (length (cards s))) mod int (length (cards s))
       \<and> (c + d + int (length (cards s))) mod int (length (cards s)) \<le> int (length (cards s)) - 1
       \<and> currentIndex (navigate (- 1) (navigate 1 s)) = Num c
       \<and> isFlipped (navigate d s) = False"
proof -
  let ?n = "int (length (cards s))"
  let ?c1 = "(c + 1 + ?n) mod ?n"
  have n: "0 < ?n" using assms(1) by simp
  have n32: "?n < 4294967296" using assms(2) by simp
  have m: "MAX_SAFE_INTEGER = 9007199254740991" by (simp add: MAX_SAFE_INTEGER_def)
  have d1: "\<bar>d\<bar> \<le> MAX_SAFE_INTEGER"
    using assms(4,5,6,7) n n32 m by linarith
  have d2: "\<bar>c + d\<bar> \<le> MAX_SAFE_INTEGER"
    using assms(4,5,6,7) n n32 m by linarith
  have a: "currentIndex (navigate d s) = Num ((c + d + ?n) mod ?n)"
    using assms(1,3,6) d1 d2 assms(7) by (rule navigate_index)
  have b: "0 \<le> (c + d + ?n) mod ?n" "(c + d + ?n) mod ?n \<le> ?n - 1"
    using n pos_mod_bound[of ?n "c + d + ?n"] by simp_all
  have f0: "0 \<le> c + 1 + ?n" using assms(4) n by linarith
  have f1: "\<bar>1 :: int\<bar> \<le> MAX_SAFE_INTEGER" using m by simp
  have f2: "\<bar>c + 1\<bar> \<le> MAX_SAFE_INTEGER" using assms(4,5) n32 m by linarith
  have f3: "c + 1 + ?n \<le> MAX_SAFE_INTEGER" using assms(4,5) n32 m by linarith
  have fwd: "currentIndex (navigate 1 s) = Num ?c1"
    using assms(1,3) f0 f1 f2 f3 by (rule navigate_index)
  have c1: "0 \<le> ?c1" "?c1 < ?n" using n by simp_all
  have ne1: "cards (navigate 1 s) \<noteq> []"
    using assms(1) by (simp add: navigate_cards)
  have p0: "0 \<le> ?c1 + (- 1) + int (length (cards (navigate 1 s)))"
    unfolding navigate_cards using c1 n by linarith
  have p1: "\<bar>- 1 :: int\<bar> \<le> MAX_SAFE_INTEGER" using m by simp
  have p2: "\<bar>?c1 + (- 1)\<bar> \<le> MAX_SAFE_INTEGER" using c1 n32 m by linarith
  have p3: "?c1 + (- 1) + int (length (cards (navigate 1 s))) \<le> MAX_SAFE_INTEGER"
    unfolding navigate_cards using c1 n32 m by linarith
  have "currentIndex (navigate (- 1) (navigate 1 s)) = Num ((?c1 + (- 1) + ?n) mod ?n)"
    using navigate_index[OF ne1 fwd p0 p1 p2 p3] by (simp only: navigate_cards)
  moreover have "(?c1 + (- 1) + ?n) mod ?n = c"
  proof (cases "c + 1 = ?n")
    case True
    then have "?c1 = 0" by simp
    then have "?c1 + (- 1) + ?n = c" using True by linarith
    then show ?thesis using assms(4,5) by (simp only: mod_pos_pos_trivial)
  next
    case False
    then have "c + 1 < ?n" using assms(5) by simp
    then have "?c1 = c + 1" using assms(4) by simp
    then have "?c1 + (- 1) + ?n = c + ?n" by linarith
    then show ?thesis using assms(4,5) by (simp only: mod_add_self2 mod_pos_pos_trivial)
  qed
  ultimately have rt: "currentIndex (navigate (- 1) (navigate 1 s)) = Num c" by simp
  show ?thesis using a b rt by (simp add: navigate_def Let_def)
qed

theorem navigate_wraps_witness:
  "currentIndex (navigate (- 1) (initial_state defaultCards (Num 0))) = Num 2
   \<and> currentIndex (navigate 1 (initial_state defaultCards (Num 2))) = Num 0
   \<and> currentIndex (navigate (- 1) (navigate 1 (initial_state defaultCards (Num 2)))) = Num 2"
proof -
  have l: "length defaultCards = 3" "defaultCards \<noteq> []" by (simp_all add: defaultCards_def)
  have "currentIndex (navigate (- 1) (initial_state defaultCards (Num 0))) = Num 2"
    using navigate_wraps[of "initial_state defaultCards (Num 0)" 0 "- 1"] l
    by (simp add: initial_state_def MAX_SAFE_INTEGER_def)
  moreover have "currentIndex (navigate 1 (initial_state defaultCards (Num 2))) = Num 0
     \<and> currentIndex (navigate (- 1) (navigate 1 (initial_state defaultCards (Num 2)))) = Num 2"
    using navigate_wraps[of "initial_state defaultCards (Num 2)" 2 1] l
    by (simp add: initial_state_def MAX_SAFE_INTEGER_def)
  ultimately show ?thesis by simp
qed

text \<open>
  C3 as stated, for any integer direction, fails: \<^verbatim>\<open>%\<close> keeps the sign of the
  dividend, so on the three default cards with the cursor at 0 the direction
  \<open>-5\<close> gives the cursor \<open>-2\<close>. And the sums are sums of doubles: on two
  cards with the cursor at 1 the direction \<open>2 ^ 53\<close> gives the cursor 0,
  where \<open>(1 + 2 ^ 53 + 2) mod 2\<close> is 1.
\<close>

theorem navigate_any_direction_counterexample:
  "length (cards (initial_state defaultCards (Num 0))) = 3
   \<and> currentIndex (initial_state defaultCards (Num 0)) = Num 0
   \<and> currentIndex (navigate (- 5) (initial_state defaultCards (Num 0))) = Num (- 2)
   \<and> currentIndex (navigate (2 ^ 53) (initial_state [make_card ''a'' ''b'', make_card ''c'' ''d''] (Num 1)))
       = Num 0
   \<and> (1 + 2 ^ 53 + 2) mod 2 = (1 :: int)"
  using navigate_rounds
  by (simp add: navigate_def initial_state_def defaultCards_def to_number_def MAX_SAFE_INTEGER_def)

subsection \<open>Import and export\<close>

text \<open>
  C4. \<open>importCards\<close> changes nothing on its error paths: when the text is
  not JSON, when it is JSON but not a non-empty array, and when no element
  of the array passes the filter, the state after the call is the state
  before it. More generally every call that does not report an import leaves
  the state as it was.
\<close>

theorem importCards_atomic:
  "(JSON_parse content = Throws \<longrightarrow> importCards (Some content) s = Some ([ErrorReadingFile], s))
   \<and> (JSON_parse content = Returns v \<and> (\<forall>xs. v = JArr xs \<longrightarrow> xs = []) \<longrightarrow>
        importCards (Some content) s = Some ([InvalidFormat], s))
   \<and> (JSON_parse content = Returns (JArr xs) \<and> xs \<noteq> [] \<and> filter_cards xs = Returns [] \<longrightarrow>
        importCards (Some content) s = Some ([NoValidCards], s))
   \<and> (importCards chosen s = Some (ns, s') \<and> (\<forall>k. Imported k \<notin> set ns) \<longrightarrow> s' = s)"
proof (intro conjI impI)
  assume "JSON_parse content = Throws"
  then show "importCards (Some content) s = Some ([ErrorReadingFile], s)"
    by (simp add: importCards_def onload_def)
next
  assume a: "JSON_parse content = Returns v \<and> (\<forall>xs. v = JArr xs \<longrightarrow> xs = [])"
  then show "importCards (Some content) s = Some ([InvalidFormat], s)"
    by (cases v) (simp_all add: importCards_def onload_def)
next
  assume "JSON_parse content = Returns (JArr xs) \<and> xs \<noteq> [] \<and> filter_cards xs = Returns []"
  then show "importCards (Some content) s = Some ([NoValidCards], s)"
    by (simp add: importCards_def onload_def)
next
  assume "importCards chosen s = Some (ns, s') \<and> (\<forall>k. Imported k \<notin> set ns)"
  then show "s' = s"
    using importCards_cases[of chosen s ns s'] by auto
qed

theorem importCards_atomic_witness:
  \<open>importCards (Some ''not json'') ((initial_state defaultCards (Num 2))\<lparr>isFlipped := True\<rparr>)
     = Some ([ErrorReadingFile], (initial_state defaultCards (Num 2))\<lparr>isFlipped := True\<rparr>)
   \<and> importCards (Some ''[]'') ((initial_state defaultCards (Num 2))\<lparr>isFlipped := True\<rparr>)
     = Some ([InvalidFormat], (initial_state defaultCards (Num 2))\<lparr>isFlipped := True\<rparr>)
   \<and> importCards (Some ''{"front":"a","back":"b"}'') ((initial_state defaultCards (Num 2))\<lparr>isFlipped := True\<rparr>)
     = Some ([InvalidFormat], (initial_state defaultCards (Num 2))\<lparr>isFlipped := True\<rparr>)
   \<and> importCards (Some ''[{"front":"a"}]'') ((initial_state defaultCards (Num 2))\<lparr>isFlipped := True\<rparr>)
     = Some ([NoValidCards], (initial_state defaultCards (Num 2))\<lparr>isFlipped := True\<rparr>)
   \<and> importCards (Some ''[null]'') ((initial_state defaultCards (Num 2))\<lparr>isFlipped := True\<rparr>)
     = Some ([ErrorReadingFile], (initial_state defaultCards (Num 2))\<lparr>isFlipped := True\<rparr>)
   \<and> importCards None ((initial_state defaultCards (Num 2))\<lparr>isFlipped := True\<rparr>)
     = Some ([], (initial_state defaultCards (Num 2))\<lparr>isFlipped := True\<rparr>)\<close>
proof -
  let ?s = "(initial_state defaultCards (Num 2))\<lparr>isFlipped := True\<rparr>"
  have f: "filter_cards [JObj [(''front'', JStr ''a'')]] = Returns []"
    by (simp add: valid_card_def truthy_opt_def)
  have n: "importCards (Some ''[null]'') ?s = Some ([ErrorReadingFile], ?s)"
    by (simp add: importCards_def onload_def parse_examples valid_card_def)
  show ?thesis
    using importCards_atomic[where content = "''not json''" and s = ?s]
      importCards_atomic[where content = "''[]''" and s = ?s and v = "JArr []"]
      importCards_atomic[where content = \<open>''{"front":"a","back":"b"}''\<close> and s = ?s
          and v = "make_card ''a'' ''b''"]
      importCards_atomic[where content = \<open>''[{"front":"a"}]''\<close> and s = ?s
          and xs = "[JObj [(''front'', JStr ''a'')]]"]
      importCards_atomic[where s = ?s and chosen = "Some ''[null]''" and ns = "[ErrorReadingFile]"
          and s' = ?s]
      importCards_atomic[where s = ?s and chosen = None and ns = "[]" and s' = ?s]
      f n
    by (simp add: parse_examples make_card_def importCards_def)
qed

text \<open>
  C5 (as amended). For a non-empty deck of cards \<^verbatim>\<open>{ front, back }\<close> whose
  \<^verbatim>\<open>front\<close> and \<^verbatim>\<open>back\<close> are both non-empty strings, exporting does not
  change deck or cursor, and importing the exported text, into any state,
  gives the same cards in the same order, the cursor 0 and the flip state
  false.
\<close>

theorem export_import_roundtrip:
  "cards s = map (\<lambda>(f, b). make_card f b) fbs \<and> fbs \<noteq> []
     \<and> list_all (\<lambda>(f, b). f \<noteq> [] \<and> b \<noteq> []) fbs \<longrightarrow>
   cards (exportCards s) = cards s \<and> currentIndex (exportCards s) = currentIndex s
   \<and> importCards (Some (exportText (exportCards s))) s2
       = Some ([Imported (length (cards s))],
               s2\<lparr>cards := cards s, currentIndex := Num 0, isFlipped := False\<rparr>)"
proof (intro impI)
  assume a: "cards s = map (\<lambda>(f, b). make_card f b) fbs \<and> fbs \<noteq> []
     \<and> list_all (\<lambda>(f, b). f \<noteq> [] \<and> b \<noteq> []) fbs"
  then have ne: "cards s \<noteq> []" by simp
  have wf: "list_all wf_json (cards s)"
    using a by (auto simp: list_all_iff wf_card)
  have v: "list_all (\<lambda>c. valid_card c = Returns True) (cards s)"
    using a by (auto simp: list_all_iff valid_card_card)
  show "cards (exportCards s) = cards s \<and> currentIndex (exportCards s) = currentIndex s
   \<and> importCards (Some (exportText (exportCards s))) s2
       = Some ([Imported (length (cards s))],
               s2\<lparr>cards := cards s, currentIndex := Num 0, isFlipped := False\<rparr>)"
    using importCards_exportText[OF ne wf v] by (simp add: exportCards_def)
qed

theorem export_import_roundtrip_witness:
  "importCards (Some (exportText (exportCards (initial_state defaultCards (Num 2)))))
       (exportCards (initial_state defaultCards (Num 2)))
     = Some ([Imported 3],
             (exportCards (initial_state defaultCards (Num 2)))
               \<lparr>cards := defaultCards, currentIndex := Num 0, isFlipped := False\<rparr>)
   \<and> cards (exportCards (initial_state defaultCards (Num 2))) = defaultCards
   \<and> currentIndex (exportCards (initial_state defaultCards (Num 2))) = Num 2"
  using export_import_roundtrip[where s = "initial_state defaultCards (Num 2)"
      and ?s2.0 = "exportCards (initial_state defaultCards (Num 2))"
      and fbs = "[(''What is React?'', ''A JavaScript library for building user interfaces''),
        (''What is a React Hook?'',
         ''Functions that let you use state and other React features without writing a class''),
        (''What is JSX?'', ''A syntax extension for JavaScript that looks similar to HTML'')]"]
  by (simp add: initial_state_def defaultCards_def)

text \<open>
  C5 as stated, for every deck, fails: a card with an empty \<^verbatim>\<open>front\<close>, which
  the start-up takes from the storage as it is, is dropped by the filter of
  the import.
\<close>

theorem export_import_roundtrip_counterexample:
  \<open>init (Map.empty(''flashcards'' \<mapsto> ''[{"front":"","back":"x"},{"front":"a","back":"b"}]''))
     = Returns (initial_state [make_card [] ''x'', make_card ''a'' ''b''] (Num 0))
   \<and> importCards
        (Some (exportText (exportCards (initial_state [make_card [] ''x'', make_card ''a'' ''b''] (Num 0)))))
        (exportCards (initial_state [make_card [] ''x'', make_card ''a'' ''b''] (Num 0)))
     = Some ([Imported 1],
             (exportCards (initial_state [make_card [] ''x'', make_card ''a'' ''b''] (Num 0)))
               \<lparr>cards := [make_card ''a'' ''b''], currentIndex := Num 0, isFlipped := False\<rparr>)
   \<and> [make_card ''a'' ''b''] \<noteq> [make_card [] ''x'', make_card ''a'' ''b'']\<close>
proof -
  let ?d = "[make_card [] ''x'', make_card ''a'' ''b'']"
  have i: \<open>init (Map.empty(''flashcards'' \<mapsto> ''[{"front":"","back":"x"},{"front":"a","back":"b"}]''))
     = Returns (initial_state ?d (Num 0))\<close>
    by (simp add: init_def init_cards_def init_currentIndex_def parse_examples)
  have "wf_json (JArr ?d)" by (simp add: wf_card)
  then have p: "JSON_parse (exportText (exportCards (initial_state ?d (Num 0)))) = Returns (JArr ?d)"
    by (simp add: exportCards_def initial_state_def JSON_parse_stringify del: wf_json.simps)
  have f: "filter_cards ?d = Returns [make_card ''a'' ''b'']"
    by (simp add: valid_card_card)
  show ?thesis
    using i p f by (simp add: importCards_def onload_def)
qed

subsection \<open>Deleting a card\<close>

text \<open>
  C6. On a deck of one card \<open>deleteCard\<close> changes nothing. On a deck of
  \<open>N > 1\<close> cards with the cursor \<open>c\<close> in range it removes exactly the card at
  \<open>c\<close>, leaves \<open>N - 1\<close> cards, sets the cursor to \<open>min c (N - 2)\<close> and clears
  the flip state.
\<close>

theorem deleteCard_spec:
  "(length (cards s) = 1 \<longrightarrow> deleteCard s = s)
   \<and> (1 < length (cards s) \<and> currentIndex s = Num c \<and> 0 \<le> c \<and> c < int (length (cards s)) \<longrightarrow>
        cards (deleteCard s) = take (nat c) (cards s) @ drop (Suc (nat c)) (cards s)
        \<and> length (cards (deleteCard s)) = length (cards s) - 1
        \<and> currentIndex (deleteCard s) = Num (min c (int (length (cards s)) - 2))
        \<and> isFlipped (deleteCard s) = False)"
proof (intro conjI impI)
  assume "length (cards s) = 1"
  then show "deleteCard s = s" by (simp add: deleteCard_def)
next
  assume a: "1 < length (cards s) \<and> currentIndex s = Num c \<and> 0 \<le> c \<and> c < int (length (cards s))"
  then have sp: "splice1 (currentIndex s) (cards s) = take (nat c) (cards s) @ drop (Suc (nat c)) (cards s)"
    using splice1_in_range[of c "cards s"] by simp
  have len: "length (take (nat c) (cards s) @ drop (Suc (nat c)) (cards s)) = length (cards s) - 1"
    using a by auto
  show "cards (deleteCard s) = take (nat c) (cards s) @ drop (Suc (nat c)) (cards s)"
    using a sp by (simp add: deleteCard_def Let_def)
  show "length (cards (deleteCard s)) = length (cards s) - 1"
    using a sp len by (simp add: deleteCard_def Let_def)
  have "int (length (cards s) - 1) - 1 = int (length (cards s)) - 2"
    using a by linarith
  then show "currentIndex (deleteCard s) = Num (min c (int (length (cards s)) - 2))"
    using a sp len by (simp add: deleteCard_def Let_def)
  show "isFlipped (deleteCard s) = False"
    using a by (simp add: deleteCard_def Let_def)
qed

theorem deleteCard_spec_witness:
  "deleteCard (initial_state [make_card ''a'' ''b''] (Num 0)) = initial_state [make_card ''a'' ''b''] (Num 0)
   \<and> cards (deleteCard (initial_state defaultCards (Num 2))) = [defaultCards ! 0, defaultCards ! 1]
   \<and> currentIndex (deleteCard (initial_state defaultCards (Num 2))) = Num 1
   \<and> cards (deleteCard (initial_state defaultCards (Num 0))) = [defaultCards ! 1, defaultCards ! 2]
   \<and> currentIndex (deleteCard (initial_state defaultCards (Num 0))) = Num 0"
proof -
  have "deleteCard (initial_state [make_card ''a'' ''b''] (Num 0)) = initial_state [make_card ''a'' ''b''] (Num 0)"
    using deleteCard_spec[of "initial_state [make_card ''a'' ''b''] (Num 0)" 0]
    by (simp add: initial_state_def)
  moreover have "cards (deleteCard (initial_state defaultCards (Num 2))) = [defaultCards ! 0, defaultCards ! 1]
      \<and> currentIndex (deleteCard (initial_state defaultCards (Num 2))) = Num 1"
    using deleteCard_spec[of "initial_state defaultCards (Num 2)" 2]
    by (simp add: initial_state_def defaultCards_def numeral_2_eq_2)
  moreover have "cards (deleteCard (initial_state defaultCards (Num 0))) = [defaultCards ! 1, defaultCards ! 2]
      \<and> currentIndex (deleteCard (initial_state defaultCards (Num 0))) = Num 0"
    using deleteCard_spec[of "initial_state defaultCards (Num 0)" 0]
    by (simp add: initial_state_def defaultCards_def)
  ultimately show ?thesis by simp
qed

subsection \<open>Adding a card\<close>

text \<open>
  C7. \<open>addCard\<close> reads the two form fields. When either of them trims to
  the empty string nothing changes; otherwise exactly one card with these
  fields is appended at the end of the deck, whose length grows by one, and
  the cursor stays where it was.
\<close>

theorem addCard_spec:
  "(js_trim (newCardFront s) = [] \<or> js_trim (newCardBack s) = [] \<longrightarrow> addCard s = s)
   \<and> (js_trim (newCardFront s) \<noteq> [] \<and> js_trim (newCardBack s) \<noteq> [] \<longrightarrow>
        cards (addCard s) = cards s @ [make_card (newCardFront s) (newCardBack s)]
        \<and> length (cards (addCard s)) = length (cards s) + 1
        \<and> currentIndex (addCard s) = currentIndex s)"
  by (simp add: addCard_def)

theorem addCard_spec_witness:
  "addCard ((initial_state defaultCards (Num 1))\<lparr>newCardFront := [], newCardBack := ''x''\<rparr>)
     = (initial_state defaultCards (Num 1))\<lparr>newCardFront := [], newCardBack := ''x''\<rparr>
   \<and> addCard ((initial_state defaultCards (Num 1))\<lparr>newCardFront := ''x'', newCardBack := '' ''\<rparr>)
     = (initial_state defaultCards (Num 1))\<lparr>newCardFront := ''x'', newCardBack := '' ''\<rparr>
   \<and> cards (addCard ((initial_state defaultCards (Num 1))\<lparr>newCardFront := ''a'', newCardBack := ''b''\<rparr>))
     = defaultCards @ [make_card ''a'' ''b'']
   \<and> length (cards (addCard ((initial_state defaultCards (Num 1))\<lparr>newCardFront := ''a'', newCardBack := ''b''\<rparr>))) = 4
   \<and> currentIndex (addCard ((initial_state defaultCards (Num 1))\<lparr>newCardFront := ''a'', newCardBack := ''b''\<rparr>)) = Num 1"
proof -
  have l: "length defaultCards = 3" by (simp add: defaultCards_def)
  have t: "js_trim [] = []" "js_trim '' '' = []" "js_trim ''x'' \<noteq> []" "js_trim ''a'' \<noteq> []" "js_trim ''b'' \<noteq> []"
    by (simp_all add: js_trim_def is_js_space_def)
  show ?thesis
    using addCard_spec[of "(initial_state defaultCards (Num 1))\<lparr>newCardFront := [], newCardBack := ''x''\<rparr>"]
      addCard_spec[of "(initial_state defaultCards (Num 1))\<lparr>newCardFront := ''x'', newCardBack := '' ''\<rparr>"]
      addCard_spec[of "(initial_state defaultCards (Num 1))\<lparr>newCardFront := ''a'', newCardBack := ''b''\<rparr>"]
      l t
    by (simp add: initial_state_def)
qed

text \<open>
  C10. The card that \<open>addCard\<close> appends holds the two fields as they were
  typed: trimming only serves the emptiness test, and leading or trailing
  white space of an accepted field is stored.
\<close>

theorem addCard_stores_verbatim:
  "js_trim (newCardFront s) \<noteq> [] \<and> js_trim (newCardBack s) \<noteq> [] \<longrightarrow>
     last (cards (addCard s)) = JObj [(''front'', JStr (newCardFront s)), (''back'', JStr (newCardBack s))]
     \<and> get_prop (last (cards (addCard s))) ''front'' = Returns (Some (JStr (newCardFront s)))
     \<and> get_prop (last (cards (addCard s))) ''back'' = Returns (Some (JStr (newCardBack s)))"
  by (simp add: addCard_def make_card_def)

theorem addCard_stores_verbatim_witness:
  "js_trim ''  a '' = ''a'' \<and> js_trim [CHR 0x0A, CHR ''b''] = ''b''
   \<and> get_prop (last (cards (addCard ((initial_state defaultCards (Num 0))
          \<lparr>newCardFront := ''  a '', newCardBack := [CHR 0x0A, CHR ''b'']\<rparr>)))) ''front''
       = Returns (Some (JStr ''  a ''))
   \<and> get_prop (last (cards (addCard ((initial_state defaultCards (Num 0))
          \<lparr>newCardFront := ''  a '', newCardBack := [CHR 0x0A, CHR ''b'']\<rparr>)))) ''back''
       = Returns (Some (JStr [CHR 0x0A, CHR ''b'']))"
proof -
  have t: "js_trim ''  a '' = ''a''" "js_trim [CHR 0x0A, CHR ''b''] = ''b''"
    by (simp_all add: js_trim_def is_js_space_def)
  show ?thesis
    using addCard_stores_verbatim[of "(initial_state defaultCards (Num 0))
          \<lparr>newCardFront := ''  a '', newCardBack := [CHR 0x0A, CHR ''b'']\<rparr>"] t
    by (simp add: initial_state_def)
qed

subsection \<open>Shuffling\<close>

text \<open>
  C8. Whatever numbers in \<open>[0, 1)\<close> \<^verbatim>\<open>Math.random\<close> returns, \<open>shuffleCards\<close>
  leaves a permutation of the deck (the same multiset of cards, the same
  length) and sets the cursor to 0.
\<close>

theorem shuffleCards_permutation:
  assumes "\<forall>k. 0 \<le> rnd k \<and> rnd k < 1"
  shows "mset (cards (shuffleCards rnd s)) = mset (cards s)
       \<and> length (cards (shuffleCards rnd s)) = length (cards s)
       \<and> currentIndex (shuffleCards rnd s) = Num 0"
proof (cases "cards s")
  case Nil
  then show ?thesis by (simp add: shuffleCards_def)
next
  case (Cons c cs)
  then have "length (cards s) - 1 < length (cards s)" by simp
  from shuffle_loop_mset[OF assms this]
  show ?thesis by (simp add: shuffleCards_def shuffle_loop_length)
qed

theorem shuffleCards_permutation_witness:
  "mset (cards (shuffleCards (\<lambda>k. 1 / 2) (initial_state defaultCards (Num 0)))) = mset defaultCards
   \<and> cards (shuffleCards (\<lambda>k. 1 / 2) (initial_state defaultCards (Num 0)))
       = [defaultCards ! 0, defaultCards ! 2, defaultCards ! 1]
   \<and> currentIndex (shuffleCards (\<lambda>k. 1 / 2) (initial_state defaultCards (Num 0))) = Num 0"
proof -
  have r: "\<forall>k::nat. 0 \<le> (1 / 2 :: real) \<and> (1 / 2 :: real) < 1" by simp
  have "cards (shuffleCards (\<lambda>k. 1 / 2) (initial_state defaultCards (Num 0)))
       = [defaultCards ! 0, defaultCards ! 2, defaultCards ! 1]"
    by (simp add: shuffleCards_def initial_state_def defaultCards_def numeral_2_eq_2 Let_def)
  with shuffleCards_permutation[of "\<lambda>k. 1 / 2" "initial_state defaultCards (Num 0)", OF r]
  show ?thesis by (simp add: initial_state_def)
qed

subsection \<open>The cursor at start-up\<close>

text \<open>
  C9 (as amended). When the stored cursor is missing or is the empty string,
  the cursor starts at 0. When it is a non-empty string without any digit,
  \<^verbatim>\<open>parseInt\<close> gives \<^verbatim>\<open>NaN\<close>, and the cursor starts as \<^verbatim>\<open>NaN\<close>.
\<close>

theorem init_currentIndex_default:
  "(st ''currentCardIndex'' = None \<or> st ''currentCardIndex'' = Some [] \<longrightarrow>
      init_currentIndex st = Returns (Num 0))
   \<and> (st ''currentCardIndex'' = Some saved \<and> saved \<noteq> [] \<and> list_all (\<lambda>c. \<not> is_digit c) saved \<longrightarrow>
      init_currentIndex st = Returns NaN)"
proof (intro conjI impI)
  assume "st ''currentCardIndex'' = None \<or> st ''currentCardIndex'' = Some []"
  then show "init_currentIndex st = Returns (Num 0)"
    by (auto simp: init_currentIndex_def)
next
  assume a: "st ''currentCardIndex'' = Some saved \<and> saved \<noteq> [] \<and> list_all (\<lambda>c. \<not> is_digit c) saved"
  have "takeWhile is_digit u = []" if "set u \<subseteq> set saved" for u
    using that a by (cases u) (auto simp: list_all_iff)
  moreover have "set (dropWhile is_js_space saved) \<subseteq> set saved"
    by (auto dest: set_dropWhileD)
  moreover have "set (tl ys) \<subseteq> set ys" for ys :: string
    by (cases ys) auto
  then have "set (tl (dropWhile is_js_space saved)) \<subseteq> set saved"
    using \<open>set (dropWhile is_js_space saved) \<subseteq> set saved\<close> by blast
  ultimately have "parseInt10 saved = Returns NaN"
    by (simp add: parseInt10_def Let_def)
  then show "init_currentIndex st = Returns NaN"
    using a by (simp add: init_currentIndex_def)
qed

theorem init_currentIndex_default_witness:
  "init_currentIndex Map.empty = Returns (Num 0)
   \<and> init_currentIndex (Map.empty(''currentCardIndex'' \<mapsto> [])) = Returns (Num 0)
   \<and> init_currentIndex (Map.empty(''currentCardIndex'' \<mapsto> ''NaN'')) = Returns NaN"
  using init_currentIndex_default[of Map.empty]
    init_currentIndex_default[of "Map.empty(''currentCardIndex'' \<mapsto> [])"]
    init_currentIndex_default[of "Map.empty(''currentCardIndex'' \<mapsto> ''NaN'')" "''NaN''"]
  by (simp add: is_digit_def)

text \<open>
  C9 as stated fails on the stored cursor \<^verbatim>\<open>abc\<close>: the page starts with the
  default deck and the cursor \<^verbatim>\<open>NaN\<close>, not 0.
\<close>

theorem init_currentIndex_counterexample:
  "init_currentIndex (Map.empty(''currentCardIndex'' \<mapsto> ''abc'')) = Returns NaN
   \<and> init (Map.empty(''currentCardIndex'' \<mapsto> ''abc'')) = Returns (initial_state defaultCards NaN)
   \<and> NaN \<noteq> Num 0"
  by (simp add: init_def init_cards_def init_currentIndex_def parseInt10_def is_js_space_def is_digit_def)

end
